theory Spec2Isabelle
  imports Main "HOL-Library.Word"
begin

unbundle bit_operations_syntax

section \<open>Data model of booster/src/main.c\<close>

type_synonym u8 = "8 word"
type_synonym u32 = "32 word"

text \<open>\<^verbatim>\<open>enum error_code\<close>, lines 111-117.\<close>

datatype error_code =
    NO_ERROR
  | INVALID_IMAGE_SIZE
  | HASH_MISMATCH
  | SPI_MISMATCH
  | MISSING_MULTIBOOT

text \<open>
  What the program does to its peripherals, in the order it does it. Every call into a
  driver that main.c makes appends one event, so that "no erase has been issued yet" is
  a statement about a list.
\<close>

datatype event =
    Ev_cfg4 u32               \<comment> \<open>\<^verbatim>\<open>picorvspi_cfg4_write(v)\<close>\<close>
  | Ev_erase u32              \<comment> \<open>\<^verbatim>\<open>spiBeginErase4(address)\<close>\<close>
  | Ev_write u32 "u8 list"    \<comment> \<open>\<^verbatim>\<open>spiBeginWrite(addr, data, count)\<close>, with the bytes sent\<close>
  | Ev_spi_id                 \<comment> \<open>\<^verbatim>\<open>spiId()\<close>\<close>
  | Ev_rgb_error              \<comment> \<open>\<^verbatim>\<open>rgb_mode_error()\<close>\<close>
  | Ev_rgb_wheel u8           \<comment> \<open>\<^verbatim>\<open>rgb_wheel(c)\<close>\<close>
  | Ev_rgb_writing            \<comment> \<open>\<^verbatim>\<open>rgb_mode_writing()\<close>\<close>
  | Ev_reboot_ctrl u32        \<comment> \<open>\<^verbatim>\<open>reboot_ctrl_write(v)\<close>\<close>

text \<open>
  The \<^verbatim>\<open>extern\<close> words of lines 11-16 that \<^verbatim>\<open>fobooster_main\<close> reads, and the one
  build constant \<^verbatim>\<open>msleep\<close> needs. They are placed by the linker and the image builder;
  the program only reads them.
\<close>

record booster_env =
  image_length :: u32
  hash_length :: u32
  image_seed :: u32
  spi_id :: u32
  xxhash :: u32                 \<comment> \<open>\<^verbatim>\<open>booster_data.xxhash\<close>\<close>
  SYSTEM_CLOCK_FREQUENCY :: nat

text \<open>
  The machine state: the SPI flash and the timer, the globals of lines 17-19, 38, 119
  and 143, the locals of \<^verbatim>\<open>fobooster_main\<close> (lines 146-149 and 206), and the trace.

  \<^item> \<open>flash\<close> is the content of the SPI flash by byte offset. The memory-mapped window
    starts at bus address \<^verbatim>\<open>0x20000000\<close>, so \<^verbatim>\<open>(void *)0x20040000\<close> is offset
    \<^verbatim>\<open>0x40000\<close>.
  \<^item> \<open>cached_image\<close> is the memory starting at \<^verbatim>\<open>&cached_image[0]\<close>, by byte offset:
    offsets below \<^verbatim>\<open>0x1a000\<close> are the array, offsets from there on are whatever the
    linker placed behind it (the programming loop can read there, see \<open>program_loop\<close>).
  \<^item> \<open>current_ptr\<close> is the byte offset of the pointer from \<^verbatim>\<open>&cached_image[0]\<close>.
\<close>

record booster =
  flash :: "nat \<Rightarrow> u8"
  spi_busy :: nat
  spi_op_polls :: nat
  spi_chip_id :: u32
  timer0_en :: u32
  timer0_reload :: u32
  timer0_count :: nat
  timer0_value :: nat
  cached_image :: "nat \<Rightarrow> u8"
  error_code :: error_code
  calculated_hash :: u32
  read_spi_id :: u32
  cached_image_length :: u32
  cached_spi_id :: u32
  bytes_left :: u32
  target_addr :: u32
  current_ptr :: nat
  wheel_c :: u8
  trace :: "event list"

text \<open>\<^verbatim>\<open>multiboot_reference\<close>, lines 26-36.\<close>

definition multiboot_reference :: "u8 list" where
  "multiboot_reference =
    [0x7e, 0xaa, 0x99, 0x7e, 0x92, 0x00, 0x00, 0x44,
     0x03, 0x04, 0x00, 0xa0, 0x82, 0x00, 0x00, 0x01,
     0x08, 0x00, 0x00, 0x00, 0x00, 0x00, 0x00, 0x00,
     0x00, 0x00, 0x00, 0x00, 0x00, 0x00, 0x00, 0x00,
     0x7e, 0xaa, 0x99, 0x7e, 0x92, 0x00, 0x00, 0x44,
     0x03, 0x00, 0x00, 0xa0, 0x82, 0x00, 0x00, 0x01,
     0x08, 0x00, 0x00, 0x00, 0x00, 0x00, 0x00, 0x00,
     0x00, 0x00, 0x00, 0x00, 0x00, 0x00, 0x00, 0x00]"

text \<open>\<^verbatim>\<open>sizeof(cached_image)\<close> for \<^verbatim>\<open>uint32_t cached_image[0x1a000/4]\<close>, line 38.\<close>

definition sizeof_cached_image :: nat where
  "sizeof_cached_image = (0x1a000 div 4) * 4"

text \<open>
  Modelled from the spec: \<^verbatim>\<open>SPI_ERASE_SECTOR_SIZE\<close> and \<^verbatim>\<open>SPI_PROGRAM_PAGE_SIZE\<close> are
  macros of spi.h, which is not among the sources. The spec calls them the fixed size of
  an erase block and of a program page; the values are the ones the comments of lines
  220 and 223 give ("one 4096-byte block", "each 256-byte page").
\<close>

definition SPI_ERASE_SECTOR_SIZE :: nat where
  "SPI_ERASE_SECTOR_SIZE = 4096"

definition SPI_PROGRAM_PAGE_SIZE :: nat where
  "SPI_PROGRAM_PAGE_SIZE = 256"

section \<open>The drivers main.c calls\<close>

text \<open>
  Modelled from the spec: \<^verbatim>\<open>spiIsBusy\<close>, \<^verbatim>\<open>spiBeginErase4\<close>, \<^verbatim>\<open>spiBeginWrite\<close> and
  \<^verbatim>\<open>spiId\<close> are defined in spi.c, which is not among the sources. The spec (sections 5
  to 7 and the glossary) gives them as the primitives busy(), erase(address),
  program(address, bytes, length) and the identity query, where
  \<^item> an erase block is the region erased as a unit before reprogramming, a program page
    the region written by one program command;
  \<^item> a memory operation is followed by a time in which busy() reports true, and the
    busy-wait is "assumed to always eventually succeed": \<open>spi_busy\<close> counts the polls
    that still answer busy, and a command sets it to \<open>spi_op_polls\<close>.
  For the content of the memory the model is that of a NOR flash: erasing sets every
  byte of the block that holds the address to \<^verbatim>\<open>0xFF\<close>, programming clears bits (the
  stored byte becomes the conjunction of the old byte and the byte sent), at most one
  page of bytes is taken, and the address wraps inside its page.
\<close>

definition spiIsBusy :: "booster \<Rightarrow> bool \<times> booster" where
  "spiIsBusy s =
     (if spi_busy s = 0 then (False, s) else (True, s\<lparr>spi_busy := spi_busy s - 1\<rparr>))"

definition erase_block :: "(nat \<Rightarrow> u8) \<Rightarrow> nat \<Rightarrow> nat \<Rightarrow> u8" where
  "erase_block m address =
     (\<lambda>a. if a div SPI_ERASE_SECTOR_SIZE = address div SPI_ERASE_SECTOR_SIZE then 0xFF else m a)"

definition spiBeginErase4 :: "u32 \<Rightarrow> booster \<Rightarrow> booster" where
  "spiBeginErase4 address s =
     s\<lparr>flash := erase_block (flash s) (unat address),
       spi_busy := spi_op_polls s,
       trace := trace s @ [Ev_erase address]\<rparr>"

definition program_page :: "(nat \<Rightarrow> u8) \<Rightarrow> nat \<Rightarrow> u8 list \<Rightarrow> nat \<Rightarrow> u8" where
  "program_page m addr bs =
     (\<lambda>a. let i = (a + SPI_PROGRAM_PAGE_SIZE - addr mod SPI_PROGRAM_PAGE_SIZE)
                    mod SPI_PROGRAM_PAGE_SIZE
          in if a div SPI_PROGRAM_PAGE_SIZE = addr div SPI_PROGRAM_PAGE_SIZE \<and> i < length bs
             then m a AND bs ! i else m a)"

definition spiBeginWrite :: "u32 \<Rightarrow> u8 list \<Rightarrow> booster \<Rightarrow> booster" where
  "spiBeginWrite addr data s =
     s\<lparr>flash := program_page (flash s) (unat addr) (take SPI_PROGRAM_PAGE_SIZE data),
       spi_busy := spi_op_polls s,
       trace := trace s @ [Ev_write addr (take SPI_PROGRAM_PAGE_SIZE data)]\<rparr>"

definition spiId :: "booster \<Rightarrow> u32 \<times> booster" where
  "spiId s = (spi_chip_id s, s\<lparr>trace := trace s @ [Ev_spi_id]\<rparr>)"

text \<open>
  Modelled from the spec: the register accessors of csr.h and the indicator driver of
  rgb.h are not among the sources. A write to the interface's mode register and a call
  of the indicator are recorded in the trace. The timer is a down counter:
  \<^verbatim>\<open>timer0_load_write\<close> sets it, \<^verbatim>\<open>timer0_update_value_write\<close> latches it into the
  value register, and by the next access a counter that is not yet zero has gone down
  by one. The enable and reload registers hold what was written to them.
\<close>

definition picorvspi_cfg4_write :: "u32 \<Rightarrow> booster \<Rightarrow> booster" where
  "picorvspi_cfg4_write v s = s\<lparr>trace := trace s @ [Ev_cfg4 v]\<rparr>"

definition reboot_ctrl_write :: "u32 \<Rightarrow> booster \<Rightarrow> booster" where
  "reboot_ctrl_write v s = s\<lparr>trace := trace s @ [Ev_reboot_ctrl v]\<rparr>"

definition rgb_mode_error :: "booster \<Rightarrow> booster" where
  "rgb_mode_error s = s\<lparr>trace := trace s @ [Ev_rgb_error]\<rparr>"

definition rgb_mode_writing :: "booster \<Rightarrow> booster" where
  "rgb_mode_writing s = s\<lparr>trace := trace s @ [Ev_rgb_writing]\<rparr>"

definition rgb_wheel :: "u8 \<Rightarrow> booster \<Rightarrow> booster" where
  "rgb_wheel v s = s\<lparr>trace := trace s @ [Ev_rgb_wheel v]\<rparr>"

definition timer0_en_write :: "u32 \<Rightarrow> booster \<Rightarrow> booster" where
  "timer0_en_write v s = s\<lparr>timer0_en := v\<rparr>"

definition timer0_reload_write :: "u32 \<Rightarrow> booster \<Rightarrow> booster" where
  "timer0_reload_write v s = s\<lparr>timer0_reload := v\<rparr>"

definition timer0_load_write :: "nat \<Rightarrow> booster \<Rightarrow> booster" where
  "timer0_load_write v s = s\<lparr>timer0_count := v mod 2 ^ 32\<rparr>"

definition timer0_update_value_write :: "booster \<Rightarrow> booster" where
  "timer0_update_value_write s =
     s\<lparr>timer0_value := timer0_count s, timer0_count := timer0_count s - 1\<rparr>"

definition timer0_value_read :: "booster \<Rightarrow> nat" where
  "timer0_value_read s = timer0_value s"

section \<open>The functions of main.c\<close>

text \<open>\<^verbatim>\<open>msleep\<close>, lines 40-49; \<open>msleep_loop\<close> is the loop of lines 47-48.\<close>

function msleep_loop :: "booster \<Rightarrow> booster" where
  "msleep_loop s =
     (if timer0_value_read s \<noteq> 0 then msleep_loop (timer0_update_value_write s) else s)"
  by pat_completeness auto
termination
  by (relation "measure (\<lambda>s. 2 * timer0_count s + (if timer0_value s = 0 then 0 else 1))")
     (auto simp: timer0_update_value_write_def timer0_value_read_def)

declare msleep_loop.simps [simp del]

definition msleep :: "booster_env \<Rightarrow> nat \<Rightarrow> booster \<Rightarrow> booster" where
  "msleep env ms s =
     (let s1 = timer0_en_write 0 s;
          s2 = timer0_reload_write 0 s1;
          s3 = timer0_load_write (SYSTEM_CLOCK_FREQUENCY env div 1000 * ms) s2;
          s4 = timer0_en_write 1 s3;
          s5 = timer0_update_value_write s4
      in msleep_loop s5)"

text \<open>
  \<^verbatim>\<open>reboot\<close>, lines 51-58: the register write, then \<^verbatim>\<open>while (1)\<close>. The function does not
  return; the state it spins in is what the model gives.
\<close>

definition reboot :: "booster \<Rightarrow> booster" where
  "reboot s =
     (let image_index = (2 :: u32)
      in reboot_ctrl_write (0xac OR push_bit 0 (image_index AND 3)) s)"

text \<open>\<^verbatim>\<open>ftfl_busy\<close> and \<^verbatim>\<open>ftfl_busy_wait\<close>, lines 60-71.\<close>

definition ftfl_busy :: "booster \<Rightarrow> bool \<times> booster" where
  "ftfl_busy s = spiIsBusy s"

function ftfl_busy_wait :: "booster \<Rightarrow> booster" where
  "ftfl_busy_wait s =
     (let (busy, s') = ftfl_busy s in if busy then ftfl_busy_wait s' else s')"
  by pat_completeness auto
termination
  by (relation "measure spi_busy")
     (auto simp: ftfl_busy_def spiIsBusy_def split: if_splits)

declare ftfl_busy_wait.simps [simp del]

text \<open>\<^verbatim>\<open>ftfl_begin_erase_sector\<close>, lines 73-78.\<close>

definition ftfl_begin_erase_sector :: "u32 \<Rightarrow> booster \<Rightarrow> booster" where
  "ftfl_begin_erase_sector address s = spiBeginErase4 address (ftfl_busy_wait s)"

text \<open>\<^verbatim>\<open>erase_booster\<close>, lines 80-102.\<close>

definition erase_booster :: "booster \<Rightarrow> booster" where
  "erase_booster s =
     (let s1 = ftfl_busy_wait s;
          zero = (0 :: u8);
          s2 = spiBeginWrite 9 (take 1 [zero]) s1;
          s3 = ftfl_busy_wait s2
      in ftfl_begin_erase_sector 0x5a000 s3)"

text \<open>\<^verbatim>\<open>finish_flashing\<close>, lines 104-109.\<close>

definition finish_flashing :: "booster \<Rightarrow> booster" where
  "finish_flashing s = reboot (ftfl_busy_wait (erase_booster s))"

text \<open>
  \<^verbatim>\<open>error\<close>, lines 121-130: the code is latched, the indicator is set, and the first
  \<^verbatim>\<open>while(1)\<close> is never left, so lines 126-129 are never reached. The result is the
  state the program halts in.
\<close>

definition error :: "error_code \<Rightarrow> booster \<Rightarrow> booster" where
  "error code s = rgb_mode_error (s\<lparr>error_code := code\<rparr>)"

section \<open>The main function\<close>

text \<open>
  The function is modelled from line 159 on, that is from the moment the USB side has
  set \<^verbatim>\<open>should_continue\<close>. It never returns: a run ends in the \<^verbatim>\<open>while(1)\<close> of
  \<^verbatim>\<open>error\<close> (the result \<open>Inl\<close> of the state it halts in) or in the one of \<^verbatim>\<open>reboot\<close> (the
  result \<open>Inr\<close>). \<^verbatim>\<open>XXH32\<close> is defined in a file that is not among the sources; it is a
  parameter, from the bytes hashed and the seed to the hash.
\<close>

text \<open>What the memory-mapped window and the memory behind \<^verbatim>\<open>cached_image\<close> hold.\<close>

definition mapped_read :: "booster \<Rightarrow> nat \<Rightarrow> nat \<Rightarrow> u8 list" where
  "mapped_read s off n = map (flash s) [off..<off + n]"

definition ram_read :: "booster \<Rightarrow> nat \<Rightarrow> nat \<Rightarrow> u8 list" where
  "ram_read s off n = map (cached_image s) [off..<off + n]"

text \<open>Line 173: \<^verbatim>\<open>memcpy(cached_image, (const void *)0x20040000, image_length)\<close>.\<close>

definition copy_payload :: "nat \<Rightarrow> booster \<Rightarrow> booster" where
  "copy_payload n s =
     s\<lparr>cached_image := (\<lambda>i. if i < n then flash s (0x40000 + i) else cached_image s i)\<rparr>"

text \<open>Lines 176-182, the loop that compares the staged bytes with the reference.\<close>

function multiboot_loop :: "booster \<Rightarrow> booster + booster" where
  "multiboot_loop s =
     (if unat (target_addr s) < length multiboot_reference
      then (if cached_image s (unat (target_addr s))
                 \<noteq> multiboot_reference ! unat (target_addr s)
            then Inl (error MISSING_MULTIBOOT s)
            else multiboot_loop (s\<lparr>target_addr := target_addr s + 1\<rparr>))
      else Inr s)"
  by pat_completeness auto
termination
proof (relation "measure (\<lambda>s. length multiboot_reference - unat (target_addr s))")
  show "wf (measure (\<lambda>s. length multiboot_reference - unat (target_addr s)))"
    by simp
next
  fix s :: booster
  assume lt: "unat (target_addr s) < length multiboot_reference"
  have "length multiboot_reference = 64"
    by (simp add: multiboot_reference_def)
  with lt have "unat (target_addr s + 1) = unat (target_addr s) + 1"
    by (simp add: unat_word_ariths)
  with lt show "(s\<lparr>target_addr := target_addr s + 1\<rparr>, s)
      \<in> measure (\<lambda>s. length multiboot_reference - unat (target_addr s))"
    by simp
qed

declare multiboot_loop.simps [simp del]

text \<open>
  Line 186, \<^verbatim>\<open>((uint8_t *)cached_image)[9] = 0x04;\<close>: one byte store into the staging
  memory, whatever the byte was.
\<close>

definition patch_selector :: "booster \<Rightarrow> booster" where
  "patch_selector s = s\<lparr>cached_image := (cached_image s)(9 := 0x04)\<rparr>"

text \<open>Lines 159-186: the size check, the hash, the copy, the descriptor, the patch.\<close>

definition validate :: "(u8 list \<Rightarrow> u32 \<Rightarrow> u32) \<Rightarrow> booster_env \<Rightarrow> booster \<Rightarrow> booster + booster" where
  "validate XXH32 env s =
     (if unat (image_length env) > sizeof_cached_image
      then Inl (error INVALID_IMAGE_SIZE s)
      else
        let s1 = s\<lparr>calculated_hash :=
                    XXH32 (mapped_read s 0x40000 (unat (hash_length env))) (image_seed env)\<rparr>
        in if calculated_hash s1 \<noteq> xxhash env
           then Inl (error HASH_MISMATCH s1)
           else
             let s2 = copy_payload (unat (image_length env)) s1
             in case multiboot_loop (s2\<lparr>target_addr := 0\<rparr>) of
                  Inl halted \<Rightarrow> Inl halted
                | Inr s3 \<Rightarrow> Inr (patch_selector s3))"

text \<open>Lines 188-198: the interface leaves the mapped mode and the identity is read again.\<close>

definition confirm_identity :: "booster_env \<Rightarrow> booster \<Rightarrow> booster + booster" where
  "confirm_identity env s =
     (let s1 = s\<lparr>cached_spi_id := spi_id env\<rparr>;
          s2 = s1\<lparr>cached_image_length := image_length env\<rparr>;
          s3 = ftfl_busy_wait (picorvspi_cfg4_write 0 s2);
          (ident, s4) = spiId s3;
          s5 = s4\<lparr>read_spi_id := ident\<rparr>
      in if cached_spi_id s5 \<noteq> read_spi_id s5
         then Inl (error SPI_MISMATCH s5) else Inr s5)"

text \<open>
  Line 213: the block read back through the mapped window (line 211) against the
  \<^verbatim>\<open>SPI_ERASE_SECTOR_SIZE\<close> bytes at \<^verbatim>\<open>current_ptr\<close>; true when \<^verbatim>\<open>memcmp\<close> returns 0.
\<close>

definition block_unchanged :: "booster \<Rightarrow> bool" where
  "block_unchanged s =
     (mapped_read s (unat (target_addr s)) SPI_ERASE_SECTOR_SIZE
        = ram_read s (current_ptr s) SPI_ERASE_SECTOR_SIZE)"

text \<open>Lines 228-236, the body of the page loop.\<close>

definition page_body :: "booster \<Rightarrow> booster" where
  "page_body s =
     (let s1 = rgb_wheel (wheel_c s + 10) (s\<lparr>wheel_c := wheel_c s + 10\<rparr>);
          bytes_to_write = (if bytes_left s1 > of_nat SPI_PROGRAM_PAGE_SIZE
                            then of_nat SPI_PROGRAM_PAGE_SIZE else bytes_left s1);
          s2 = ftfl_busy_wait s1;
          s3 = spiBeginWrite (target_addr s2)
                 (ram_read s2 (current_ptr s2) (unat bytes_to_write)) s2
      in s3\<lparr>current_ptr := current_ptr s3 + SPI_PROGRAM_PAGE_SIZE,
            target_addr := target_addr s3 + of_nat SPI_PROGRAM_PAGE_SIZE,
            bytes_left := bytes_left s3 - bytes_to_write\<rparr>)"

text \<open>Lines 224-237, the page loop; the first argument is \<^verbatim>\<open>page_offset\<close>.\<close>

function page_loop :: "u32 \<Rightarrow> booster \<Rightarrow> booster" where
  "page_loop page_offset s =
     (if bytes_left s \<noteq> 0 \<and> page_offset < of_nat SPI_ERASE_SECTOR_SIZE
      then page_loop (page_offset + of_nat SPI_PROGRAM_PAGE_SIZE) (page_body s)
      else s)"
  by pat_completeness auto
termination
proof (relation "measure (\<lambda>(page_offset, s). SPI_ERASE_SECTOR_SIZE - unat page_offset)")
  show "wf (measure (\<lambda>(page_offset :: u32, s :: booster).
          SPI_ERASE_SECTOR_SIZE - unat page_offset))"
    by simp
next
  fix page_offset :: u32 and s :: booster
  assume "bytes_left s \<noteq> 0 \<and> page_offset < of_nat SPI_ERASE_SECTOR_SIZE"
  then have lt: "unat page_offset < 4096"
    by (simp add: SPI_ERASE_SECTOR_SIZE_def word_less_nat_alt)
  then have "unat (page_offset + 256) = unat page_offset + 256"
    by (simp add: unat_word_ariths)
  with lt show "((page_offset + of_nat SPI_PROGRAM_PAGE_SIZE, page_body s), page_offset, s)
      \<in> measure (\<lambda>(page_offset, s). SPI_ERASE_SECTOR_SIZE - unat page_offset)"
    by (simp add: SPI_ERASE_SECTOR_SIZE_def SPI_PROGRAM_PAGE_SIZE_def)
qed

declare page_loop.simps [simp del]

text \<open>Lines 209-237, the body of the programming loop.\<close>

definition loop_body :: "booster \<Rightarrow> booster" where
  "loop_body s =
     (let s1 = picorvspi_cfg4_write 0x80 s;
          unchanged = block_unchanged s1;
          s2 = picorvspi_cfg4_write 0x00 s1
      in if unchanged
         then s2\<lparr>current_ptr := current_ptr s2 + SPI_ERASE_SECTOR_SIZE,
                 target_addr := target_addr s2 + of_nat SPI_ERASE_SECTOR_SIZE,
                 bytes_left := bytes_left s2 - of_nat SPI_ERASE_SECTOR_SIZE\<rparr>
         else page_loop 0 (ftfl_begin_erase_sector (target_addr s2) s2))"

text \<open>
  The programming loop of lines 207-238 needs, for its termination, that its body moves
  \<^verbatim>\<open>target_addr\<close> forward. The facts about the page loop that show it come first.
\<close>

text \<open>\<^verbatim>\<open>bytes_to_write\<close> of lines 229-231, as a function of the state.\<close>

definition page_bytes :: "booster \<Rightarrow> u32" where
  "page_bytes s = (if bytes_left s > 256 then 256 else bytes_left s)"

text \<open>
  How often the page loop runs when it is entered with \<^verbatim>\<open>page_offset\<close> and
  \<^verbatim>\<open>bytes_left\<close>: until the block ends or the bytes do.
\<close>

definition page_count :: "u32 \<Rightarrow> u32 \<Rightarrow> nat" where
  "page_count page_offset bl =
     min ((4096 - unat page_offset) div 256) ((unat bl + 255) div 256)"

text \<open>The events of the page loop's round \<open>k\<close>, counted from 0, when it is entered in \<open>s\<close>.\<close>

definition page_events :: "booster \<Rightarrow> nat \<Rightarrow> event list" where
  "page_events s k =
     [Ev_rgb_wheel (wheel_c s + 10 * of_nat (Suc k)),
      Ev_write (target_addr s + 256 * of_nat k)
        (ram_read s (current_ptr s + 256 * k) (min (unat (bytes_left s) - 256 * k) 256))]"

lemma ftfl_busy_wait_eq: "ftfl_busy_wait s = s\<lparr>spi_busy := 0\<rparr>"
proof (induction s rule: ftfl_busy_wait.induct)
  case (1 s)
  show ?case
  proof (cases "spi_busy s = 0")
    case True
    then show ?thesis
      by (subst ftfl_busy_wait.simps) (simp add: ftfl_busy_def spiIsBusy_def)
  next
    case False
    then have "ftfl_busy s = (True, s\<lparr>spi_busy := spi_busy s - 1\<rparr>)"
      by (simp add: ftfl_busy_def spiIsBusy_def)
    from 1 [OF refl this [symmetric]] this show ?thesis
      by (subst ftfl_busy_wait.simps) simp
  qed
qed

lemma msleep_loop_eq:
  "msleep_loop s =
     (if timer0_value s = 0 then s else s\<lparr>timer0_value := 0, timer0_count := 0\<rparr>)"
proof (induction s rule: msleep_loop.induct)
  case (1 s)
  show ?case
  proof (cases "timer0_value s = 0")
    case True
    then show ?thesis
      by (subst msleep_loop.simps) (simp add: timer0_value_read_def)
  next
    case False
    then have "timer0_value_read s \<noteq> 0"
      by (simp add: timer0_value_read_def)
    from 1 [OF this] this False show ?thesis
      by (subst msleep_loop.simps) (simp add: timer0_update_value_write_def timer0_value_read_def)
  qed
qed

lemma unat_page_bytes: "unat (page_bytes s) = min (unat (bytes_left s)) 256"
  by (simp add: page_bytes_def word_less_nat_alt min_def)

lemma length_ram_read [simp]: "length (ram_read s off n) = n"
  by (simp add: ram_read_def)

lemma length_mapped_read [simp]: "length (mapped_read s off n) = n"
  by (simp add: mapped_read_def)

lemma ram_read_cong: "cached_image s = cached_image s' \<Longrightarrow> ram_read s = ram_read s'"
  by (simp add: ram_read_def fun_eq_iff)

lemma page_body_eq:
  "page_body s =
     s\<lparr>wheel_c := wheel_c s + 10,
       trace := trace s @ [Ev_rgb_wheel (wheel_c s + 10),
                  Ev_write (target_addr s) (ram_read s (current_ptr s) (unat (page_bytes s)))],
       flash := program_page (flash s) (unat (target_addr s))
                  (ram_read s (current_ptr s) (unat (page_bytes s))),
       spi_busy := spi_op_polls s,
       current_ptr := current_ptr s + 256,
       target_addr := target_addr s + 256,
       bytes_left := bytes_left s - page_bytes s\<rparr>"
  apply (simp add: page_body_def Let_def rgb_wheel_def ftfl_busy_wait_eq spiBeginWrite_def
           SPI_PROGRAM_PAGE_SIZE_def page_bytes_def ram_read_def)
  apply (simp add: word_less_nat_alt)
  done

lemma unat_bytes_left_page_body:
  "unat (bytes_left (page_body s)) = unat (bytes_left s) - 256"
proof -
  have "unat (bytes_left s - page_bytes s) = unat (bytes_left s) - unat (page_bytes s)"
    by (rule unat_sub) (simp add: page_bytes_def word_le_nat_alt word_less_nat_alt)
  then show ?thesis
    by (simp add: page_body_eq unat_page_bytes)
qed

lemma pages_of_bytes_step:
  fixes x :: nat
  assumes "0 < x"
  shows "(x + 255) div 256 = Suc ((x - 256 + 255) div 256)"
proof (cases "256 \<le> x")
  case True
  then have "x + 255 = (x - 256 + 255) + 256"
    by simp
  then have "(x + 255) div 256 = ((x - 256 + 255) + 256) div 256"
    by simp
  also have "\<dots> = Suc ((x - 256 + 255) div 256)"
    by (simp only: div_add_self2)
  finally show ?thesis .
next
  case False
  with assms have "(x + 255) div 256 = 1"
    by (intro div_nat_eqI) simp_all
  with False show ?thesis
    by simp
qed

lemma page_count_step:
  assumes "bytes_left s \<noteq> 0" "page_offset < 4096" "256 dvd unat page_offset"
  shows "page_count page_offset (bytes_left s)
           = Suc (page_count (page_offset + 256) (bytes_left (page_body s)))"
    and "256 dvd unat (page_offset + 256)" and "unat (page_offset + 256) \<le> 4096"
proof -
  from assms(2) have lt: "unat page_offset < 4096"
    by (simp add: word_less_nat_alt)
  then have u: "unat (page_offset + 256) = unat page_offset + 256"
    by (simp add: unat_word_ariths)
  from assms(3) obtain k where k: "unat page_offset = 256 * k" ..
  with lt have k16: "k < 16" by simp
  from assms(1) have pos: "0 < unat (bytes_left s)"
    by (simp add: unat_gt_0)
  show "256 dvd unat (page_offset + 256)"
    using u assms(3) by simp
  show "unat (page_offset + 256) \<le> 4096"
    using u k k16 by simp
  have a: "(4096 - unat page_offset) div 256 = Suc ((4096 - (unat page_offset + 256)) div 256)"
    using k k16 by simp
  have b: "(unat (bytes_left s) + 255) div 256 = Suc ((unat (bytes_left s) - 256 + 255) div 256)"
    using pos by (rule pages_of_bytes_step)
  show "page_count page_offset (bytes_left s)
           = Suc (page_count (page_offset + 256) (bytes_left (page_body s)))"
    by (simp add: page_count_def u unat_bytes_left_page_body a b)
qed

text \<open>The page loop is its body, run \<open>page_count\<close> times.\<close>

lemma page_loop_funpow:
  "256 dvd unat page_offset \<Longrightarrow> unat page_offset \<le> 4096 \<Longrightarrow>
     page_loop page_offset s = (page_body ^^ page_count page_offset (bytes_left s)) s"
proof (induction page_offset s rule: page_loop.induct)
  case (1 page_offset s)
  show ?case
  proof (cases "bytes_left s \<noteq> 0 \<and> page_offset < 4096")
    case True
    then have c: "bytes_left s \<noteq> 0 \<and> page_offset < word_of_nat SPI_ERASE_SECTOR_SIZE"
      by (simp add: SPI_ERASE_SECTOR_SIZE_def)
    from True "1.prems" have st:
      "page_count page_offset (bytes_left s)
           = Suc (page_count (page_offset + 256) (bytes_left (page_body s)))"
      "256 dvd unat (page_offset + 256)" "unat (page_offset + 256) \<le> 4096"
      using page_count_step [of s page_offset] by simp_all
    have "page_loop page_offset s = page_loop (page_offset + 256) (page_body s)"
      using c by (subst page_loop.simps) (simp add: SPI_PROGRAM_PAGE_SIZE_def)
    also have "\<dots> = (page_body ^^ page_count (page_offset + 256) (bytes_left (page_body s)))
                       (page_body s)"
      using "1.IH" [OF c] st(2,3) by (simp add: SPI_PROGRAM_PAGE_SIZE_def)
    finally show ?thesis
      by (simp only: st(1) funpow_Suc_right o_apply)
  next
    case False
    then have stop: "page_loop page_offset s = s"
      by (subst page_loop.simps) (auto simp: SPI_ERASE_SECTOR_SIZE_def)
    from False have "bytes_left s = 0 \<or> 4096 \<le> unat page_offset"
      by (auto simp: word_less_nat_alt)
    then have "page_count page_offset (bytes_left s) = 0"
      by (auto simp: page_count_def)
    with stop show ?thesis by simp
  qed
qed

lemma pages_cached_image [simp]: "cached_image ((page_body ^^ n) s) = cached_image s"
  by (induction n) (simp_all add: page_body_eq)

lemma pages_current_ptr [simp]: "current_ptr ((page_body ^^ n) s) = current_ptr s + 256 * n"
  by (induction n) (simp_all add: page_body_eq)

lemma pages_target_addr [simp]:
  "target_addr ((page_body ^^ n) s) = target_addr s + 256 * of_nat n"
  by (induction n) (simp_all add: page_body_eq algebra_simps)

lemma pages_wheel_c [simp]: "wheel_c ((page_body ^^ n) s) = wheel_c s + 10 * of_nat n"
  by (induction n) (simp_all add: page_body_eq algebra_simps)

lemma pages_bytes_left: "unat (bytes_left ((page_body ^^ n) s)) = unat (bytes_left s) - 256 * n"
  by (induction n) (simp_all add: unat_bytes_left_page_body)

lemma pages_trace:
  "trace ((page_body ^^ n) s) = trace s @ concat (map (page_events s) [0..<n])"
proof (induction n)
  case 0
  show ?case by simp
next
  case (Suc n)
  have "ram_read ((page_body ^^ n) s) = ram_read s"
    by (rule ram_read_cong) simp
  then show ?case
    by (simp add: page_body_eq [of "(page_body ^^ n) s"] Suc page_events_def
          unat_page_bytes pages_bytes_left algebra_simps)
qed

lemma block_unchanged_cfg4 [simp]:
  "block_unchanged (picorvspi_cfg4_write v s) = block_unchanged s"
  by (simp add: block_unchanged_def picorvspi_cfg4_write_def mapped_read_def ram_read_def)

lemma loop_body_eq:
  "loop_body s =
     (if block_unchanged s
      then s\<lparr>trace := trace s @ [Ev_cfg4 0x80, Ev_cfg4 0],
             current_ptr := current_ptr s + 4096,
             target_addr := target_addr s + 4096,
             bytes_left := bytes_left s - 4096\<rparr>
      else (page_body ^^ page_count 0 (bytes_left s))
             (s\<lparr>flash := erase_block (flash s) (unat (target_addr s)),
                spi_busy := spi_op_polls s,
                trace := trace s @ [Ev_cfg4 0x80, Ev_cfg4 0, Ev_erase (target_addr s)]\<rparr>))"
  by (simp add: loop_body_def Let_def page_loop_funpow ftfl_begin_erase_sector_def
        ftfl_busy_wait_eq spiBeginErase4_def SPI_ERASE_SECTOR_SIZE_def)
     (simp add: picorvspi_cfg4_write_def)

lemma page_count_0: "bl \<noteq> 0 \<Longrightarrow> 1 \<le> page_count 0 bl \<and> page_count 0 bl \<le> 16"
  by (simp add: page_count_def unat_gt_0 Suc_le_eq div_greater_zero_iff)

lemma loop_body_advances:
  assumes "bytes_left s \<noteq> 0" "target_addr s < 131072"
  shows "unat (target_addr s) < unat (target_addr (loop_body s))"
    and "unat (target_addr (loop_body s)) \<le> unat (target_addr s) + 4096"
proof -
  from assms(2) have lt: "unat (target_addr s) < 131072"
    by (simp add: word_less_nat_alt)
  define n where "n = page_count 0 (bytes_left s)"
  from page_count_0 [OF assms(1)] have n: "1 \<le> n" "n \<le> 16"
    by (simp_all add: n_def)
  from lt n have pu: "unat (target_addr s + 256 * of_nat n) = unat (target_addr s) + 256 * n"
    by (simp add: unat_word_ariths unat_of_nat)
  from lt have su: "unat (target_addr s + 4096) = unat (target_addr s) + 4096"
    by (simp add: unat_word_ariths)
  show "unat (target_addr s) < unat (target_addr (loop_body s))"
    using pu su n by (simp add: loop_body_eq n_def [symmetric])
  show "unat (target_addr (loop_body s)) \<le> unat (target_addr s) + 4096"
    using pu su n by (simp add: loop_body_eq n_def [symmetric])
qed

text \<open>Lines 207-238, the programming loop.\<close>

function program_loop :: "booster \<Rightarrow> booster" where
  "program_loop s =
     (if bytes_left s \<noteq> 0 \<and> target_addr s < 131072
      then program_loop (loop_body s) else s)"
  by pat_completeness auto
termination
proof (relation "measure (\<lambda>s. 131072 - unat (target_addr s))")
  show "wf (measure (\<lambda>s. 131072 - unat (target_addr s)))"
    by simp
next
  fix s :: booster
  assume c: "bytes_left s \<noteq> 0 \<and> target_addr s < 131072"
  then have "unat (target_addr s) < 131072"
    by (simp add: word_less_nat_alt)
  moreover from c have "unat (target_addr s) < unat (target_addr (loop_body s))"
    by (simp add: loop_body_advances)
  ultimately show "(loop_body s, s) \<in> measure (\<lambda>s. 131072 - unat (target_addr s))"
    by simp
qed

declare program_loop.simps [simp del]

text \<open>Lines 200-238: the locals are set up and the loop runs.\<close>

definition program_image :: "booster \<Rightarrow> booster" where
  "program_image s =
     program_loop
       (s\<lparr>bytes_left := cached_image_length s, target_addr := 0, current_ptr := 0,
          wheel_c := 80\<rparr>)"

text \<open>\<^verbatim>\<open>fobooster_main\<close>, lines 159-242.\<close>

definition fobooster_main ::
    "(u8 list \<Rightarrow> u32 \<Rightarrow> u32) \<Rightarrow> booster_env \<Rightarrow> booster \<Rightarrow> booster + booster" where
  "fobooster_main XXH32 env s =
     (case validate XXH32 env s of
        Inl halted \<Rightarrow> Inl halted
      | Inr s1 \<Rightarrow>
          (case confirm_identity env s1 of
             Inl halted \<Rightarrow> Inl halted
           | Inr s2 \<Rightarrow>
               let s3 = program_image s2;
                   s4 = rgb_mode_writing s3;
                   s5 = msleep env 1000 s4
               in Inr (finish_flashing s5)))"

section \<open>Notions the properties are stated with\<close>

text \<open>The commands that change the flash: an erase and a page program.\<close>

fun is_flash_command :: "event \<Rightarrow> bool" where
  "is_flash_command (Ev_erase a) = True"
| "is_flash_command (Ev_write a bs) = True"
| "is_flash_command e = False"

definition flash_commands :: "event list \<Rightarrow> event list" where
  "flash_commands evs = filter is_flash_command evs"

text \<open>What the trace of \<open>s'\<close> has beyond the trace of \<open>s\<close>.\<close>

definition events_since :: "booster \<Rightarrow> booster \<Rightarrow> event list" where
  "events_since s s' = drop (length (trace s)) (trace s')"

text \<open>
  The staging buffer after the copy of line 173, and the hash line 166 computes: over the
  \<^verbatim>\<open>hash_length\<close> bytes from flash offset \<^verbatim>\<open>0x40000\<close> on, with \<^verbatim>\<open>image_seed\<close>.
\<close>

definition staged :: "booster_env \<Rightarrow> booster \<Rightarrow> nat \<Rightarrow> u8" where
  "staged env s = cached_image (copy_payload (unat (image_length env)) s)"

definition source_hash :: "(u8 list \<Rightarrow> u32 \<Rightarrow> u32) \<Rightarrow> booster_env \<Rightarrow> booster \<Rightarrow> u32" where
  "source_hash XXH32 env s =
     XXH32 (map (flash s) [0x40000..<0x40000 + unat (hash_length env)]) (image_seed env)"

text \<open>
  A sample run, for the instances the theorems are applied to: the flash holds the
  reference descriptor as a 64-byte image at offset \<^verbatim>\<open>0x40000\<close> and is erased elsewhere,
  the memory behind \<^verbatim>\<open>cached_image\<close> is zero, as static storage is at start-up, and
  the hash function (a parameter of the model) adds the number of bytes to the seed.
\<close>

definition sample_XXH32 :: "u8 list \<Rightarrow> u32 \<Rightarrow> u32" where
  "sample_XXH32 bs seed = seed + of_nat (length bs)"

definition sample_env :: booster_env where
  "sample_env = \<lparr>image_length = 64, hash_length = 64, image_seed = 0, spi_id = 0x1234,
     xxhash = 64, SYSTEM_CLOCK_FREQUENCY = 12000000\<rparr>"

definition sample_flash :: "nat \<Rightarrow> u8" where
  "sample_flash a =
     (if 0x40000 \<le> a \<and> a < 0x40040 then multiboot_reference ! (a - 0x40000) else 0xFF)"

definition sample_state :: booster where
  "sample_state = \<lparr>flash = sample_flash, spi_busy = 0, spi_op_polls = 3, spi_chip_id = 0x1234,
     timer0_en = 0, timer0_reload = 0, timer0_count = 0, timer0_value = 0,
     cached_image = (\<lambda>i. 0), error_code = NO_ERROR, calculated_hash = 0, read_spi_id = 0,
     cached_image_length = 0, cached_spi_id = 0, bytes_left = 0, target_addr = 0,
     current_ptr = 0, wheel_c = 0, trace = []\<rparr>"

section \<open>Validation\<close>

lemma length_multiboot_reference: "length multiboot_reference = 64"
  by (simp add: multiboot_reference_def)

lemma sizeof_cached_image_eq: "sizeof_cached_image = 0x1a000"
  by (simp add: sizeof_cached_image_def)

lemma error_eq:
  "error code s = s\<lparr>error_code := code, trace := trace s @ [Ev_rgb_error]\<rparr>"
  by (simp add: error_def rgb_mode_error_def)

lemma multiboot_loop_Inl:
  "multiboot_loop s = Inl h \<Longrightarrow>
     (\<exists>i. unat (target_addr s) \<le> i \<and> i < 64 \<and> cached_image s i \<noteq> multiboot_reference ! i)
     \<and> (\<exists>ta. h = error MISSING_MULTIBOOT (s\<lparr>target_addr := ta\<rparr>))"
proof (induction s rule: multiboot_loop.induct)
  case (1 s)
  let ?t = "unat (target_addr s)"
  from "1.prems" have lt: "?t < 64"
    by (subst (asm) multiboot_loop.simps) (simp add: length_multiboot_reference split: if_splits)
  show ?case
  proof (cases "cached_image s ?t \<noteq> multiboot_reference ! ?t")
    case True
    with lt "1.prems" have "h = error MISSING_MULTIBOOT s"
      by (subst (asm) multiboot_loop.simps) (simp add: length_multiboot_reference)
    then have "h = error MISSING_MULTIBOOT (s\<lparr>target_addr := target_addr s\<rparr>)"
      by simp
    with True lt show ?thesis
      by blast
  next
    case False
    let ?s = "s\<lparr>target_addr := target_addr s + 1\<rparr>"
    from lt have u: "unat (target_addr s + 1) = ?t + 1"
      by (simp add: unat_word_ariths)
    from False lt "1.prems" have "multiboot_loop ?s = Inl h"
      by (subst (asm) multiboot_loop.simps) (simp add: length_multiboot_reference)
    with "1.IH" lt False have
      "(\<exists>i. unat (target_addr ?s) \<le> i \<and> i < 64 \<and> cached_image ?s i \<noteq> multiboot_reference ! i)
       \<and> (\<exists>ta. h = error MISSING_MULTIBOOT (?s\<lparr>target_addr := ta\<rparr>))"
      by (simp add: length_multiboot_reference)
    then obtain i ta where i: "?t + 1 \<le> i" "i < 64" "cached_image s i \<noteq> multiboot_reference ! i"
      and h: "h = error MISSING_MULTIBOOT (s\<lparr>target_addr := ta\<rparr>)"
      using u by auto
    from i have "?t \<le> i \<and> i < 64 \<and> cached_image s i \<noteq> multiboot_reference ! i"
      by simp
    with h show ?thesis
      by blast
  qed
qed

lemma multiboot_loop_Inr:
  "multiboot_loop s = Inr s' \<Longrightarrow>
     (\<forall>i. unat (target_addr s) \<le> i \<and> i < 64 \<longrightarrow> cached_image s i = multiboot_reference ! i)
     \<and> (\<exists>ta. s' = s\<lparr>target_addr := ta\<rparr>)"
proof (induction s rule: multiboot_loop.induct)
  case (1 s)
  let ?t = "unat (target_addr s)"
  show ?case
  proof (cases "?t < 64")
    case False
    with "1.prems" have "s' = s"
      by (subst (asm) multiboot_loop.simps) (simp add: length_multiboot_reference)
    then have "\<exists>ta. s' = s\<lparr>target_addr := ta\<rparr>"
      by (intro exI [of _ "target_addr s"]) simp
    moreover from False
    have "\<forall>i. ?t \<le> i \<and> i < 64 \<longrightarrow> cached_image s i = multiboot_reference ! i"
      by auto
    ultimately show ?thesis
      by blast
  next
    case lt: True
    let ?s = "s\<lparr>target_addr := target_addr s + 1\<rparr>"
    from lt "1.prems" have eq: "cached_image s ?t = multiboot_reference ! ?t"
      by (subst (asm) multiboot_loop.simps) (simp add: length_multiboot_reference split: if_splits)
    from lt have u: "unat (target_addr s + 1) = ?t + 1"
      by (simp add: unat_word_ariths)
    from eq lt "1.prems" have "multiboot_loop ?s = Inr s'"
      by (subst (asm) multiboot_loop.simps) (simp add: length_multiboot_reference)
    with "1.IH" lt eq have
      "(\<forall>i. unat (target_addr ?s) \<le> i \<and> i < 64 \<longrightarrow> cached_image ?s i = multiboot_reference ! i)
       \<and> (\<exists>ta. s' = ?s\<lparr>target_addr := ta\<rparr>)"
      by (simp add: length_multiboot_reference)
    then have rest: "\<forall>i. ?t + 1 \<le> i \<and> i < 64 \<longrightarrow> cached_image s i = multiboot_reference ! i"
      and st: "\<exists>ta. s' = s\<lparr>target_addr := ta\<rparr>"
      using u by auto
    have "cached_image s i = multiboot_reference ! i" if "?t \<le> i \<and> i < 64" for i
    proof (cases "i = ?t")
      case True
      with eq show ?thesis by simp
    next
      case False
      with that rest show ?thesis by simp
    qed
    with st show ?thesis
      by blast
  qed
qed


lemma validate_size:
  "0x1a000 < unat (image_length env) \<Longrightarrow>
     validate XXH32 env s = Inl (error INVALID_IMAGE_SIZE s)"
  by (simp add: validate_def sizeof_cached_image_eq)

lemma validate_hash:
  "unat (image_length env) \<le> 0x1a000 \<Longrightarrow> source_hash XXH32 env s \<noteq> xxhash env \<Longrightarrow>
     validate XXH32 env s
       = Inl (error HASH_MISMATCH (s\<lparr>calculated_hash := source_hash XXH32 env s\<rparr>))"
  by (simp add: validate_def sizeof_cached_image_eq source_hash_def mapped_read_def Let_def)

lemma validate_descriptor:
  assumes "unat (image_length env) \<le> 0x1a000" "source_hash XXH32 env s = xxhash env"
  shows "validate XXH32 env s =
     (case multiboot_loop
             (copy_payload (unat (image_length env))
                (s\<lparr>calculated_hash := source_hash XXH32 env s\<rparr>)\<lparr>target_addr := 0\<rparr>) of
        Inl halted \<Rightarrow> Inl halted
      | Inr s3 \<Rightarrow> Inr (patch_selector s3))"
  using assms
  by (simp add: validate_def sizeof_cached_image_eq source_hash_def mapped_read_def Let_def)

lemma staged_alt:
  "cached_image (copy_payload n (s\<lparr>calculated_hash := v\<rparr>)\<lparr>target_addr := ta\<rparr>)
     = cached_image (copy_payload n s)"
  by (simp add: copy_payload_def cong: if_cong)

lemma validate_Inr:
  assumes "validate XXH32 env s = Inr s'"
  shows "unat (image_length env) \<le> 0x1a000 \<and> source_hash XXH32 env s = xxhash env
    \<and> map (staged env s) [0..<64] = multiboot_reference
    \<and> (\<exists>ta. s' = s\<lparr>cached_image := (staged env s)(9 := 0x04),
                     calculated_hash := xxhash env, target_addr := ta\<rparr>)"
proof -
  from assms have le: "unat (image_length env) \<le> 0x1a000"
    by (cases "0x1a000 < unat (image_length env)") (simp_all add: validate_size)
  with assms have h: "source_hash XXH32 env s = xxhash env"
    by (cases "source_hash XXH32 env s = xxhash env") (simp_all add: validate_hash)
  let ?s2 = "copy_payload (unat (image_length env))
                (s\<lparr>calculated_hash := source_hash XXH32 env s\<rparr>)\<lparr>target_addr := 0\<rparr>"
  from assms obtain s3 where s3: "multiboot_loop ?s2 = Inr s3"
    and s': "s' = s3\<lparr>cached_image := (cached_image s3)(9 := 0x04)\<rparr>"
    by (auto simp: validate_descriptor [OF le h] patch_selector_def split: sum.splits)
  from multiboot_loop_Inr [OF s3]
  have m: "\<forall>i. i < 64 \<longrightarrow> cached_image ?s2 i = multiboot_reference ! i"
    and "\<exists>ta. s3 = ?s2\<lparr>target_addr := ta\<rparr>"
    by simp_all
  then obtain ta where ta: "s3 = ?s2\<lparr>target_addr := ta\<rparr>"
    by blast
  have c: "cached_image ?s2 = staged env s"
    by (simp add: staged_def copy_payload_def cong: if_cong)
  from m have "map (staged env s) [0..<64] = multiboot_reference"
    by (simp add: list_eq_iff_nth_eq length_multiboot_reference c)
  moreover have "s' = s\<lparr>cached_image := (staged env s)(9 := 0x04),
                     calculated_hash := xxhash env, target_addr := ta\<rparr>"
    by (simp add: s' ta h staged_def copy_payload_def cong: if_cong)
  ultimately show ?thesis
    using le h by blast
qed

lemma validate_Inl:
  assumes "validate XXH32 env s = Inl h"
  shows "(0x1a000 < unat (image_length env) \<and> h = error INVALID_IMAGE_SIZE s)
    \<or> (unat (image_length env) \<le> 0x1a000 \<and> source_hash XXH32 env s \<noteq> xxhash env
        \<and> h = error HASH_MISMATCH (s\<lparr>calculated_hash := source_hash XXH32 env s\<rparr>))
    \<or> (unat (image_length env) \<le> 0x1a000 \<and> source_hash XXH32 env s = xxhash env
        \<and> map (staged env s) [0..<64] \<noteq> multiboot_reference
        \<and> (\<exists>ta. h = error MISSING_MULTIBOOT
                     (s\<lparr>cached_image := staged env s,
                        calculated_hash := xxhash env, target_addr := ta\<rparr>)))"
proof (cases "0x1a000 < unat (image_length env)")
  case True
  with assms show ?thesis
    by (simp add: validate_size)
next
  case False
  then have le: "unat (image_length env) \<le> 0x1a000"
    by simp
  show ?thesis
  proof (cases "source_hash XXH32 env s = xxhash env")
    case False
    with assms le show ?thesis
      by (simp add: validate_hash)
  next
    case h: True
    let ?s2 = "copy_payload (unat (image_length env))
                (s\<lparr>calculated_hash := source_hash XXH32 env s\<rparr>)\<lparr>target_addr := 0\<rparr>"
    from assms have l: "multiboot_loop ?s2 = Inl h"
      by (auto simp: validate_descriptor [OF le h] split: sum.splits)
    from multiboot_loop_Inl [OF l] obtain i ta where i: "i < 64"
      "cached_image ?s2 i \<noteq> multiboot_reference ! i"
      and ta: "h = error MISSING_MULTIBOOT (?s2\<lparr>target_addr := ta\<rparr>)"
      by auto
    have c: "cached_image ?s2 = staged env s"
      by (simp add: staged_def copy_payload_def cong: if_cong)
    from i have "map (staged env s) [0..<64] \<noteq> multiboot_reference"
      by (auto simp: list_eq_iff_nth_eq length_multiboot_reference c)
    moreover have "h = error MISSING_MULTIBOOT
                     (s\<lparr>cached_image := staged env s,
                        calculated_hash := xxhash env, target_addr := ta\<rparr>)"
      by (simp add: ta h staged_def copy_payload_def error_eq cong: if_cong)
    ultimately show ?thesis
      using le h by blast
  qed
qed

lemma validate_ok:
  "unat (image_length env) \<le> 0x1a000 \<Longrightarrow> source_hash XXH32 env s = xxhash env \<Longrightarrow>
   map (staged env s) [0..<64] = multiboot_reference \<Longrightarrow>
     \<exists>ta. validate XXH32 env s
       = Inr (s\<lparr>cached_image := (staged env s)(9 := 0x04),
                calculated_hash := xxhash env, target_addr := ta\<rparr>)"
  by (cases "validate XXH32 env s") (auto dest: validate_Inl validate_Inr)

lemma validate_bad_descriptor:
  "unat (image_length env) \<le> 0x1a000 \<Longrightarrow> source_hash XXH32 env s = xxhash env \<Longrightarrow>
   map (staged env s) [0..<64] \<noteq> multiboot_reference \<Longrightarrow>
     \<exists>ta. validate XXH32 env s
       = Inl (error MISSING_MULTIBOOT
                (s\<lparr>cached_image := staged env s,
                   calculated_hash := xxhash env, target_addr := ta\<rparr>))"
  by (cases "validate XXH32 env s") (auto dest: validate_Inl validate_Inr)

lemma confirm_identity_eq:
  "confirm_identity env s =
     (if spi_id env \<noteq> spi_chip_id s
      then Inl (error SPI_MISMATCH
                  (s\<lparr>spi_busy := 0, read_spi_id := spi_chip_id s,
                     cached_image_length := image_length env, cached_spi_id := spi_id env,
                     trace := trace s @ [Ev_cfg4 0, Ev_spi_id]\<rparr>))
      else Inr (s\<lparr>spi_busy := 0, read_spi_id := spi_chip_id s,
                  cached_image_length := image_length env, cached_spi_id := spi_id env,
                  trace := trace s @ [Ev_cfg4 0, Ev_spi_id]\<rparr>))"
  by (simp add: confirm_identity_def Let_def spiId_def ftfl_busy_wait_eq
        picorvspi_cfg4_write_def error_eq)

lemma fobooster_main_Inl:
  "fobooster_main XXH32 env s = Inl h \<Longrightarrow>
     validate XXH32 env s = Inl h
     \<or> (\<exists>s1. validate XXH32 env s = Inr s1 \<and> confirm_identity env s1 = Inl h)"
  by (auto simp: fobooster_main_def Let_def split: sum.splits)

lemma fobooster_main_validate_Inl:
  "validate XXH32 env s = Inl h \<Longrightarrow> fobooster_main XXH32 env s = Inl h"
  by (simp add: fobooster_main_def)

lemma sample_source_hash:
  "source_hash sample_XXH32 (sample_env\<lparr>image_length := n\<rparr>) s = 64"
  by (simp add: source_hash_def sample_XXH32_def sample_env_def)

lemma sample_staged:
  "flash s = sample_flash \<Longrightarrow> map (staged sample_env s) [0..<64] = multiboot_reference"
  by (simp add: list_eq_iff_nth_eq length_multiboot_reference staged_def copy_payload_def
        sample_env_def sample_flash_def)

section \<open>The size bound\<close>

text \<open>
  Claim C7. For every candidate image whose declared length exceeds the capacity of the
  staging buffer (\<^verbatim>\<open>sizeof(cached_image)\<close>, \<^verbatim>\<open>0x1a000\<close> bytes), the run halts in
  \<^verbatim>\<open>error\<close> with \<^verbatim>\<open>INVALID_IMAGE_SIZE\<close>; the staging buffer is as it was, so the check
  came before any byte was copied; the flash is as it was, and the only event of the run
  is the error indication, so no byte was written to the non-volatile memory.
\<close>

theorem oversized_image_rejected:
  "0x1a000 < unat (image_length env) \<Longrightarrow>
     sizeof_cached_image = 0x1a000
     \<and> (\<exists>h. fobooster_main XXH32 env s = Inl h
            \<and> error_code h = INVALID_IMAGE_SIZE
            \<and> cached_image h = cached_image s
            \<and> flash h = flash s
            \<and> trace h = trace s @ [Ev_rgb_error])"
  by (simp add: fobooster_main_validate_Inl [OF validate_size] sizeof_cached_image_eq error_eq)

theorem oversized_image_rejected_witness:
  "0x1a000 < unat (image_length (sample_env\<lparr>image_length := 0x1a001\<rparr>))
   \<and> (\<exists>h. fobooster_main sample_XXH32 (sample_env\<lparr>image_length := 0x1a001\<rparr>) sample_state
             = Inl h
          \<and> error_code h = INVALID_IMAGE_SIZE
          \<and> cached_image h = cached_image sample_state
          \<and> flash h = flash sample_state
          \<and> trace h = trace sample_state @ [Ev_rgb_error])"
  using oversized_image_rejected
          [of "sample_env\<lparr>image_length := 0x1a001\<rparr>" sample_XXH32 sample_state]
  by simp

section \<open>The hash\<close>

text \<open>
  Claim C8. Validation computes the hash with \<^verbatim>\<open>XXH32\<close> over exactly \<^verbatim>\<open>hash_length\<close>
  bytes of the source region (flash offset \<^verbatim>\<open>0x40000\<close> on) and with \<^verbatim>\<open>image_seed\<close>; what
  it hashes does not depend on \<^verbatim>\<open>image_length\<close>. For every candidate that has passed the
  size check and whose computed hash differs from \<^verbatim>\<open>booster_data.xxhash\<close>, the run halts
  in \<^verbatim>\<open>error\<close> with \<^verbatim>\<open>HASH_MISMATCH\<close>, and with an equal hash no run halts with that code.
\<close>

theorem hash_mismatch_rejected:
  "unat (image_length env) \<le> 0x1a000 \<Longrightarrow>
     (source_hash XXH32 env s \<noteq> xxhash env \<longrightarrow>
        (\<exists>h. fobooster_main XXH32 env s = Inl h
           \<and> error_code h = HASH_MISMATCH
           \<and> calculated_hash h
               = XXH32 (map (flash s) [0x40000..<0x40000 + unat (hash_length env)])
                   (image_seed env)))
     \<and> (source_hash XXH32 env s = xxhash env \<longrightarrow>
          (\<forall>h. fobooster_main XXH32 env s = Inl h \<longrightarrow> error_code h \<noteq> HASH_MISMATCH))
     \<and> length (map (flash s) [0x40000..<0x40000 + unat (hash_length env)])
          = unat (hash_length env)
     \<and> source_hash XXH32 (env\<lparr>image_length := n\<rparr>) s = source_hash XXH32 env s"
proof (intro conjI impI allI)
  assume le: "unat (image_length env) \<le> 0x1a000"
  {
    assume "source_hash XXH32 env s \<noteq> xxhash env"
    from fobooster_main_validate_Inl [OF validate_hash [OF le this]]
    show "\<exists>h. fobooster_main XXH32 env s = Inl h
           \<and> error_code h = HASH_MISMATCH
           \<and> calculated_hash h
               = XXH32 (map (flash s) [0x40000..<0x40000 + unat (hash_length env)])
                   (image_seed env)"
      by (simp add: error_eq source_hash_def)
  }
  {
    fix h
    assume eq: "source_hash XXH32 env s = xxhash env"
      and h: "fobooster_main XXH32 env s = Inl h"
    from fobooster_main_Inl [OF h] show "error_code h \<noteq> HASH_MISMATCH"
    proof
      assume "validate XXH32 env s = Inl h"
      from validate_Inl [OF this] le eq show ?thesis
        by (auto simp: error_eq)
    next
      assume "\<exists>s1. validate XXH32 env s = Inr s1 \<and> confirm_identity env s1 = Inl h"
      then show ?thesis
        by (auto simp: confirm_identity_eq error_eq split: if_splits)
    qed
  }
  show "length (map (flash s) [0x40000..<0x40000 + unat (hash_length env)])
          = unat (hash_length env)"
    by simp
  show "source_hash XXH32 (env\<lparr>image_length := n\<rparr>) s = source_hash XXH32 env s"
    by (simp add: source_hash_def)
qed

theorem hash_mismatch_rejected_witness:
  "unat (image_length (sample_env\<lparr>xxhash := 1\<rparr>)) \<le> 0x1a000
   \<and> source_hash sample_XXH32 (sample_env\<lparr>xxhash := 1\<rparr>) sample_state
        \<noteq> xxhash (sample_env\<lparr>xxhash := 1\<rparr>)
   \<and> (\<exists>h. fobooster_main sample_XXH32 (sample_env\<lparr>xxhash := 1\<rparr>) sample_state = Inl h
          \<and> error_code h = HASH_MISMATCH \<and> calculated_hash h = 64)"
proof -
  have le: "unat (image_length (sample_env\<lparr>xxhash := 1\<rparr>)) \<le> 0x1a000"
    by (simp add: sample_env_def)
  have ne: "source_hash sample_XXH32 (sample_env\<lparr>xxhash := 1\<rparr>) sample_state
        \<noteq> xxhash (sample_env\<lparr>xxhash := 1\<rparr>)"
    by (simp add: source_hash_def sample_XXH32_def sample_env_def)
  from hash_mismatch_rejected [OF le, of sample_XXH32 sample_state] ne
  have "\<exists>h. fobooster_main sample_XXH32 (sample_env\<lparr>xxhash := 1\<rparr>) sample_state = Inl h
          \<and> error_code h = HASH_MISMATCH
          \<and> calculated_hash h = sample_XXH32
               (map (flash sample_state)
                  [0x40000..<0x40000 + unat (hash_length (sample_env\<lparr>xxhash := 1\<rparr>))])
               (image_seed (sample_env\<lparr>xxhash := 1\<rparr>))"
    by blast
  then have "\<exists>h. fobooster_main sample_XXH32 (sample_env\<lparr>xxhash := 1\<rparr>) sample_state = Inl h
          \<and> error_code h = HASH_MISMATCH \<and> calculated_hash h = 64"
    by (simp add: sample_XXH32_def sample_env_def)
  with le ne show ?thesis
    by blast
qed

lemma events_since_append: "trace s' = trace s @ evs \<Longrightarrow> events_since s s' = evs"
  by (simp add: events_since_def)

lemma halted_in_validate:
  assumes "validate XXH32 env s = Inl h"
  shows "error_code h \<in> {INVALID_IMAGE_SIZE, HASH_MISMATCH, MISSING_MULTIBOOT}"
    and "flash h = flash s" and "trace h = trace s @ [Ev_rgb_error]"
  using validate_Inl [OF assms] by (auto simp: error_eq)

lemma halted_in_confirm_identity:
  assumes "validate XXH32 env s = Inr s1" "confirm_identity env s1 = Inl h"
  shows "error_code h = SPI_MISMATCH" and "flash h = flash s"
    and "trace h = trace s @ [Ev_cfg4 0, Ev_spi_id, Ev_rgb_error]"
  using validate_Inr [OF assms(1)] assms(2)
  by (auto simp: confirm_identity_eq error_eq split: if_splits)

section \<open>Failures come before any write\<close>

text \<open>
  Claim C1. Whenever a run enters \<^verbatim>\<open>error\<close>, the latched code is one of the four
  classified failures, the trace of the run holds no erase and no program command, and
  the flash is what it was at the start: each failure is detected before any command is
  issued to the non-volatile memory. In particular an image that passes validation on a
  device whose identity, read after the mode switch, differs from \<^verbatim>\<open>spi_id\<close> halts with
  \<^verbatim>\<open>SPI_MISMATCH\<close>.
\<close>

theorem failures_precede_flash_commands:
  "(fobooster_main XXH32 env s = Inl h \<longrightarrow>
      error_code h \<in> {INVALID_IMAGE_SIZE, HASH_MISMATCH, SPI_MISMATCH, MISSING_MULTIBOOT}
      \<and> flash h = flash s
      \<and> trace h = trace s @ events_since s h
      \<and> flash_commands (events_since s h) = []
      \<and> last (trace h) = Ev_rgb_error)
   \<and> (unat (image_length env) \<le> 0x1a000 \<and> source_hash XXH32 env s = xxhash env
        \<and> map (staged env s) [0..<64] = multiboot_reference
        \<and> spi_id env \<noteq> spi_chip_id s \<longrightarrow>
        (\<exists>h'. fobooster_main XXH32 env s = Inl h' \<and> error_code h' = SPI_MISMATCH))"
proof (intro conjI impI)
  assume h: "fobooster_main XXH32 env s = Inl h"
  from fobooster_main_Inl [OF h]
  have "error_code h \<in> {INVALID_IMAGE_SIZE, HASH_MISMATCH, SPI_MISMATCH, MISSING_MULTIBOOT}
      \<and> flash h = flash s
      \<and> (trace h = trace s @ [Ev_rgb_error]
          \<or> trace h = trace s @ [Ev_cfg4 0, Ev_spi_id, Ev_rgb_error])"
  proof
    assume v: "validate XXH32 env s = Inl h"
    from halted_in_validate [OF v] show ?thesis
      by auto
  next
    assume "\<exists>s1. validate XXH32 env s = Inr s1 \<and> confirm_identity env s1 = Inl h"
    then obtain s1 where "validate XXH32 env s = Inr s1" "confirm_identity env s1 = Inl h"
      by blast
    from halted_in_confirm_identity [OF this] show ?thesis
      by simp
  qed
  then show "error_code h \<in> {INVALID_IMAGE_SIZE, HASH_MISMATCH, SPI_MISMATCH, MISSING_MULTIBOOT}"
    and "flash h = flash s" and "trace h = trace s @ events_since s h"
    and "flash_commands (events_since s h) = []" and "last (trace h) = Ev_rgb_error"
    by (auto simp: flash_commands_def events_since_append)
next
  assume a: "unat (image_length env) \<le> 0x1a000 \<and> source_hash XXH32 env s = xxhash env
        \<and> map (staged env s) [0..<64] = multiboot_reference
        \<and> spi_id env \<noteq> spi_chip_id s"
  then obtain ta where "validate XXH32 env s
       = Inr (s\<lparr>cached_image := (staged env s)(9 := 0x04),
                calculated_hash := xxhash env, target_addr := ta\<rparr>)"
    using validate_ok [of env XXH32 s] by blast
  with a show "\<exists>h'. fobooster_main XXH32 env s = Inl h' \<and> error_code h' = SPI_MISMATCH"
    by (simp add: fobooster_main_def confirm_identity_eq error_eq)
qed

theorem failures_precede_flash_commands_witness:
  "(\<exists>h. fobooster_main sample_XXH32 (sample_env\<lparr>image_length := 0x1a001\<rparr>) sample_state = Inl h
       \<and> error_code h = INVALID_IMAGE_SIZE
       \<and> flash h = flash sample_state
       \<and> flash_commands (events_since sample_state h) = []
       \<and> last (trace h) = Ev_rgb_error)
   \<and> (unat (image_length sample_env) \<le> 0x1a000
       \<and> source_hash sample_XXH32 sample_env (sample_state\<lparr>spi_chip_id := 0x9999\<rparr>)
            = xxhash sample_env
       \<and> map (staged sample_env (sample_state\<lparr>spi_chip_id := 0x9999\<rparr>)) [0..<64]
            = multiboot_reference
       \<and> spi_id sample_env \<noteq> spi_chip_id (sample_state\<lparr>spi_chip_id := 0x9999\<rparr>)
       \<and> (\<exists>h. fobooster_main sample_XXH32 sample_env (sample_state\<lparr>spi_chip_id := 0x9999\<rparr>)
                 = Inl h
              \<and> error_code h = SPI_MISMATCH
              \<and> flash h = flash sample_state
              \<and> flash_commands (events_since (sample_state\<lparr>spi_chip_id := 0x9999\<rparr>) h) = []))"
proof -
  let ?big = "sample_env\<lparr>image_length := 0x1a001\<rparr>"
  let ?s = "sample_state\<lparr>spi_chip_id := 0x9999\<rparr>"
  have big: "0x1a000 < unat (image_length ?big)"
    by (simp add: sample_env_def)
  from fobooster_main_validate_Inl [OF validate_size [OF big]]
  have h: "fobooster_main sample_XXH32 ?big sample_state
             = Inl (error INVALID_IMAGE_SIZE sample_state)" .
  have c: "error_code (error INVALID_IMAGE_SIZE sample_state) = INVALID_IMAGE_SIZE"
    by (simp add: error_eq)
  from failures_precede_flash_commands
         [of sample_XXH32 ?big sample_state "error INVALID_IMAGE_SIZE sample_state"] h c
  have first: "\<exists>h. fobooster_main sample_XXH32 ?big sample_state = Inl h
       \<and> error_code h = INVALID_IMAGE_SIZE
       \<and> flash h = flash sample_state
       \<and> flash_commands (events_since sample_state h) = []
       \<and> last (trace h) = Ev_rgb_error"
    by blast
  have p1: "unat (image_length sample_env) \<le> 0x1a000"
    by (simp add: sample_env_def)
  have p2: "source_hash sample_XXH32 sample_env ?s = xxhash sample_env"
    by (simp add: source_hash_def sample_XXH32_def sample_env_def)
  have p3: "map (staged sample_env ?s) [0..<64] = multiboot_reference"
    by (rule sample_staged) (simp add: sample_state_def)
  have p4: "spi_id sample_env \<noteq> spi_chip_id ?s"
    by (simp add: sample_env_def)
  from failures_precede_flash_commands [of sample_XXH32 sample_env ?s] p1 p2 p3 p4
  obtain h' where h': "fobooster_main sample_XXH32 sample_env ?s = Inl h'"
    and c': "error_code h' = SPI_MISMATCH"
    by blast
  from failures_precede_flash_commands [of sample_XXH32 sample_env ?s h'] h'
  have "flash h' = flash ?s \<and> flash_commands (events_since ?s h') = []"
    by blast
  then have "flash h' = flash sample_state \<and> flash_commands (events_since ?s h') = []"
    by simp
  with h' c' have "\<exists>h. fobooster_main sample_XXH32 sample_env ?s = Inl h
              \<and> error_code h = SPI_MISMATCH
              \<and> flash h = flash sample_state
              \<and> flash_commands (events_since ?s h) = []"
    by blast
  with first p1 p2 p3 p4 show ?thesis
    by blast
qed

text \<open>
  An image that is the reference descriptor but for the selector byte at offset 9, which
  holds 0 instead of \<^verbatim>\<open>0x04\<close>.
\<close>

definition other_selector_state :: booster where
  "other_selector_state = sample_state\<lparr>flash := sample_flash(0x40009 := 0)\<rparr>"

lemma other_selector_staged:
  "map (staged sample_env other_selector_state) [0..<64] = multiboot_reference[9 := 0]"
  by (simp add: list_eq_iff_nth_eq length_multiboot_reference staged_def copy_payload_def
        sample_env_def sample_flash_def other_selector_state_def sample_state_def
        nth_list_update)

lemma multiboot_reference_9: "multiboot_reference ! 9 = 0x04"
  by (simp add: multiboot_reference_def)

section \<open>The boot descriptor\<close>

text \<open>
  Claim C2 as stated fails: an image that differs from the reference only in the
  selector byte (offset 9) does fail the descriptor check. The loop of lines 176-182
  compares all 64 bytes, and the reference holds \<^verbatim>\<open>0x04\<close> at offset 9 (lines 21-25: the
  image is patched when the install image is generated).
\<close>

theorem selector_byte_is_compared:
  "multiboot_reference ! 9 = 0x04
   \<and> map (staged sample_env other_selector_state) [0..<64] = multiboot_reference[9 := 0]
   \<and> unat (image_length sample_env) \<le> 0x1a000
   \<and> source_hash sample_XXH32 sample_env other_selector_state = xxhash sample_env
   \<and> (\<exists>h. validate sample_XXH32 sample_env other_selector_state = Inl h
          \<and> fobooster_main sample_XXH32 sample_env other_selector_state = Inl h
          \<and> error_code h = MISSING_MULTIBOOT)"
proof -
  have p1: "unat (image_length sample_env) \<le> 0x1a000"
    by (simp add: sample_env_def)
  have p2: "source_hash sample_XXH32 sample_env other_selector_state = xxhash sample_env"
    by (simp add: source_hash_def sample_XXH32_def sample_env_def)
  have "multiboot_reference[9 := 0] \<noteq> multiboot_reference"
    by (simp add: multiboot_reference_def)
  then have p3: "map (staged sample_env other_selector_state) [0..<64] \<noteq> multiboot_reference"
    by (simp add: other_selector_staged)
  from validate_bad_descriptor [OF p1 p2 p3] obtain h
    where h: "validate sample_XXH32 sample_env other_selector_state = Inl h"
      and c: "error_code h = MISSING_MULTIBOOT"
    by (auto simp: error_eq)
  from h c fobooster_main_validate_Inl [OF h] p1 p2 show ?thesis
    by (simp add: multiboot_reference_9 other_selector_staged)
qed

text \<open>
  Claim C2, amended. For every staged image (one that has passed the size check and
  the hash check) whose first 64 bytes differ from the reference boot descriptor at any
  position, the selector byte at offset 9 included, validation fails with
  \<^verbatim>\<open>MISSING_MULTIBOOT\<close>; an image whose first 64 bytes are the reference, with \<^verbatim>\<open>0x04\<close> at
  offset 9, passes the descriptor check.
\<close>

theorem descriptor_check_is_exact:
  "unat (image_length env) \<le> 0x1a000 \<Longrightarrow> source_hash XXH32 env s = xxhash env \<Longrightarrow>
     (map (staged env s) [0..<64] \<noteq> multiboot_reference \<longrightarrow>
        (\<exists>h. validate XXH32 env s = Inl h \<and> fobooster_main XXH32 env s = Inl h
           \<and> error_code h = MISSING_MULTIBOOT))
     \<and> (map (staged env s) [0..<64] = multiboot_reference \<longrightarrow>
          (\<exists>s'. validate XXH32 env s = Inr s')
          \<and> (\<forall>h. fobooster_main XXH32 env s = Inl h \<longrightarrow> error_code h \<noteq> MISSING_MULTIBOOT))"
proof (intro conjI impI allI)
  assume le: "unat (image_length env) \<le> 0x1a000"
    and eq: "source_hash XXH32 env s = xxhash env"
  {
    assume "map (staged env s) [0..<64] \<noteq> multiboot_reference"
    from validate_bad_descriptor [OF le eq this] obtain h
      where h: "validate XXH32 env s = Inl h" and c: "error_code h = MISSING_MULTIBOOT"
      by (auto simp: error_eq)
    from h c fobooster_main_validate_Inl [OF h]
    show "\<exists>h. validate XXH32 env s = Inl h \<and> fobooster_main XXH32 env s = Inl h
           \<and> error_code h = MISSING_MULTIBOOT"
      by blast
  }
  {
    assume m: "map (staged env s) [0..<64] = multiboot_reference"
    from validate_ok [OF le eq m] show ok: "\<exists>s'. validate XXH32 env s = Inr s'"
      by blast
    fix h
    assume "fobooster_main XXH32 env s = Inl h"
    from fobooster_main_Inl [OF this] ok show "error_code h \<noteq> MISSING_MULTIBOOT"
      by (auto simp: confirm_identity_eq error_eq split: if_splits)
  }
qed

theorem descriptor_check_is_exact_witness:
  "unat (image_length sample_env) \<le> 0x1a000
   \<and> source_hash sample_XXH32 sample_env other_selector_state = xxhash sample_env
   \<and> map (staged sample_env other_selector_state) [0..<64] \<noteq> multiboot_reference
   \<and> (\<exists>h. validate sample_XXH32 sample_env other_selector_state = Inl h
          \<and> error_code h = MISSING_MULTIBOOT)
   \<and> source_hash sample_XXH32 sample_env sample_state = xxhash sample_env
   \<and> map (staged sample_env sample_state) [0..<64] = multiboot_reference
   \<and> (\<exists>s'. validate sample_XXH32 sample_env sample_state = Inr s')"
proof -
  have p1: "unat (image_length sample_env) \<le> 0x1a000"
    by (simp add: sample_env_def)
  have p2: "source_hash sample_XXH32 sample_env other_selector_state = xxhash sample_env"
    by (simp add: source_hash_def sample_XXH32_def sample_env_def)
  have "multiboot_reference[9 := 0] \<noteq> multiboot_reference"
    by (simp add: multiboot_reference_def)
  then have p3: "map (staged sample_env other_selector_state) [0..<64] \<noteq> multiboot_reference"
    by (simp add: other_selector_staged)
  from descriptor_check_is_exact [OF p1 p2] p3
  have bad: "\<exists>h. validate sample_XXH32 sample_env other_selector_state = Inl h
          \<and> error_code h = MISSING_MULTIBOOT"
    by blast
  have q2: "source_hash sample_XXH32 sample_env sample_state = xxhash sample_env"
    by (simp add: source_hash_def sample_XXH32_def sample_env_def)
  have q3: "map (staged sample_env sample_state) [0..<64] = multiboot_reference"
    by (rule sample_staged) (simp add: sample_state_def)
  from descriptor_check_is_exact [OF p1 q2] q3
  have "\<exists>s'. validate sample_XXH32 sample_env sample_state = Inr s'"
    by blast
  with p1 p2 p3 bad q2 q3 show ?thesis
    by blast
qed

section \<open>The patch of the selector byte\<close>



text \<open>The events of one round of the programming loop entered in \<open>s\<close>.\<close>

definition body_events :: "booster \<Rightarrow> event list" where
  "body_events s =
     (if block_unchanged s then [Ev_cfg4 0x80, Ev_cfg4 0x00]
      else [Ev_cfg4 0x80, Ev_cfg4 0x00, Ev_erase (target_addr s)]
           @ concat (map (page_events s) [0..<page_count 0 (bytes_left s)]))"

text \<open>The addresses a list of events erases, in order.\<close>

fun erased :: "event list \<Rightarrow> u32 list" where
  "erased [] = []"
| "erased (Ev_erase a # evs) = a # erased evs"
| "erased (e # evs) = erased evs"

lemma block_unchanged_iff:
  "block_unchanged s \<longleftrightarrow>
     (\<forall>i<4096. flash s (unat (target_addr s) + i) = cached_image s (current_ptr s + i))"
  by (simp add: block_unchanged_def mapped_read_def ram_read_def SPI_ERASE_SECTOR_SIZE_def
        list_eq_iff_nth_eq)

lemma page_events_cong:
  "wheel_c s' = wheel_c s \<Longrightarrow> target_addr s' = target_addr s \<Longrightarrow>
   current_ptr s' = current_ptr s \<Longrightarrow> bytes_left s' = bytes_left s \<Longrightarrow>
   cached_image s' = cached_image s \<Longrightarrow> page_events s' = page_events s"
  by (simp add: page_events_def fun_eq_iff ram_read_cong [of s' s])

lemma loop_body_trace: "trace (loop_body s) = trace s @ body_events s"
proof -
  let ?e = "s\<lparr>flash := erase_block (flash s) (unat (target_addr s)),
                spi_busy := spi_op_polls s,
                trace := trace s @ [Ev_cfg4 0x80, Ev_cfg4 0, Ev_erase (target_addr s)]\<rparr>"
  have "page_events ?e = page_events s"
    by (rule page_events_cong) simp_all
  then show ?thesis
    by (simp add: loop_body_eq body_events_def pages_trace)
qed

lemma program_loop_continue:
  "bytes_left s \<noteq> 0 \<Longrightarrow> target_addr s < 131072 \<Longrightarrow>
     program_loop s = program_loop (loop_body s)"
  by (subst program_loop.simps) simp

lemma program_loop_stop:
  "bytes_left s = 0 \<or> \<not> target_addr s < 131072 \<Longrightarrow> program_loop s = s"
  by (subst program_loop.simps) auto

lemma program_loop_trace: "\<exists>evs. trace (program_loop s) = trace s @ evs"
proof (induction s rule: program_loop.induct)
  case (1 s)
  show ?case
  proof (cases "bytes_left s \<noteq> 0 \<and> target_addr s < 131072")
    case True
    with 1 obtain evs where "trace (program_loop (loop_body s)) = trace (loop_body s) @ evs"
      by blast
    with True show ?thesis
      by (simp add: program_loop_continue loop_body_trace)
  next
    case False
    then show ?thesis
      by (simp add: program_loop_stop)
  qed
qed

lemma program_loop_trace_eq:
  "trace (program_loop s) = trace s @ events_since s (program_loop s)"
  using program_loop_trace [of s] by (auto simp: events_since_append)

lemma loop_events_continue:
  assumes "bytes_left s \<noteq> 0" "target_addr s < 131072"
  shows "events_since s (program_loop s)
           = body_events s @ events_since (loop_body s) (program_loop (loop_body s))"
proof -
  from program_loop_trace [of "loop_body s"] obtain evs
    where evs: "trace (program_loop (loop_body s)) = trace (loop_body s) @ evs"
    by blast
  then have "events_since (loop_body s) (program_loop (loop_body s)) = evs"
    by (rule events_since_append)
  moreover from evs assms have "trace (program_loop s) = trace s @ body_events s @ evs"
    by (simp add: program_loop_continue loop_body_trace)
  ultimately show ?thesis
    by (simp add: events_since_append)
qed

lemma loop_events_stop:
  "bytes_left s = 0 \<or> \<not> target_addr s < 131072 \<Longrightarrow> events_since s (program_loop s) = []"
  by (simp add: program_loop_stop events_since_def)

lemma page_count_0_eq: "page_count 0 bl = min 16 ((unat bl + 255) div 256)"
  by (simp add: page_count_def)

lemma loop_body_cached_image [simp]: "cached_image (loop_body s) = cached_image s"
  by (simp add: loop_body_eq)

lemma unat_sub_4096: "4096 \<le> unat (x :: u32) \<Longrightarrow> unat (x - 4096) = unat x - 4096"
  using unat_sub [of 4096 x] by (simp add: word_le_nat_alt)

lemma unat_add_4096: "unat (x :: u32) < 131072 \<Longrightarrow> unat (x + 4096) = unat x + 4096"
  by (simp add: unat_word_ariths)

text \<open>A round that starts with a whole block of bytes left moves on by a whole block.\<close>

lemma loop_body_full:
  assumes "4096 \<le> unat (bytes_left s)"
  shows "target_addr (loop_body s) = target_addr s + 4096"
    and "current_ptr (loop_body s) = current_ptr s + 4096"
    and "unat (bytes_left (loop_body s)) = unat (bytes_left s) - 4096"
proof -
  from assms have "16 \<le> (unat (bytes_left s) + 255) div 256"
    by (simp add: le_div_geq)
  then have n: "page_count 0 (bytes_left s) = 16"
    by (simp add: page_count_0_eq)
  show "target_addr (loop_body s) = target_addr s + 4096"
    and "current_ptr (loop_body s) = current_ptr s + 4096"
    by (simp_all add: loop_body_eq n)
  show "unat (bytes_left (loop_body s)) = unat (bytes_left s) - 4096"
    using assms by (simp add: loop_body_eq n pages_bytes_left unat_sub_4096)
qed

text \<open>A round of the erase-and-program kind that leaves bytes had a whole block of them.\<close>

lemma loop_body_leaves_bytes:
  assumes "\<not> block_unchanged s" "bytes_left (loop_body s) \<noteq> 0"
  shows "4096 \<le> unat (bytes_left s)"
proof (rule ccontr)
  assume "\<not> 4096 \<le> unat (bytes_left s)"
  then have lt: "unat (bytes_left s) < 4096"
    by simp
  then have "(unat (bytes_left s) + 255) div 256 \<le> 16"
    by (simp add: div_le_mono [of "unat (bytes_left s) + 255" 4350 256, simplified])
  then have n: "page_count 0 (bytes_left s) = (unat (bytes_left s) + 255) div 256"
    by (simp add: page_count_0_eq)
  have "unat (bytes_left s) \<le> 256 * ((unat (bytes_left s) + 255) div 256)"
    using div_mult_mod_eq [of "unat (bytes_left s) + 255" 256]
      mod_less_divisor [of 256 "unat (bytes_left s) + 255"]
    by (simp del: div_mult_mod_eq mod_less_divisor)
  with assms(1) have "unat (bytes_left (loop_body s)) = 0"
    by (simp add: loop_body_eq pages_bytes_left n)
  with assms(2) show False
    by (simp add: unat_eq_0)
qed

lemma loop_body_continues:
  assumes "bytes_left s \<noteq> 0" "target_addr s < 131072" "bytes_left (loop_body s) \<noteq> 0"
  shows "unat (target_addr (loop_body s)) = unat (target_addr s) + 4096"
proof -
  from assms(2) have lt: "unat (target_addr s) < 131072"
    by (simp add: word_less_nat_alt)
  have "target_addr (loop_body s) = target_addr s + 4096"
  proof (cases "block_unchanged s")
    case True
    then show ?thesis
      by (simp add: loop_body_eq)
  next
    case False
    from loop_body_leaves_bytes [OF False assms(3)] show ?thesis
      by (rule loop_body_full)
  qed
  with lt show ?thesis
    by (simp add: unat_add_4096)
qed

lemma erased_append [simp]: "erased (xs @ ys) = erased xs @ erased ys"
  by (induction xs rule: erased.induct) simp_all

lemma erased_page_events [simp]: "erased (concat (map (page_events s) ks)) = []"
  by (induction ks) (simp_all add: page_events_def)

lemma erased_body_events:
  "erased (body_events s) = (if block_unchanged s then [] else [target_addr s])"
  by (simp add: body_events_def)

lemma loop_erases_ascend:
  "sorted_wrt (\<lambda>a b. unat a + 4096 \<le> unat b) (erased (events_since s (program_loop s)))
   \<and> (\<forall>a \<in> set (erased (events_since s (program_loop s))).
         unat (target_addr s) \<le> unat a \<and> unat a < 131072)"
proof (induction s rule: program_loop.induct)
  case (1 s)
  show ?case
  proof (cases "bytes_left s \<noteq> 0 \<and> target_addr s < 131072")
    case False
    then show ?thesis
      by (simp add: loop_events_stop)
  next
    case True
    let ?s' = "loop_body s"
    let ?rest = "erased (events_since ?s' (program_loop ?s'))"
    from True have lt: "unat (target_addr s) < 131072"
      by (simp add: word_less_nat_alt)
    from 1 True have ih: "sorted_wrt (\<lambda>a b. unat a + 4096 \<le> unat b) ?rest"
      "\<forall>a \<in> set ?rest. unat (target_addr ?s') \<le> unat a \<and> unat a < 131072"
      by simp_all
    have far: "unat (target_addr s) + 4096 \<le> unat a \<and> unat a < 131072" if "a \<in> set ?rest" for a
    proof -
      from that have "events_since ?s' (program_loop ?s') \<noteq> []"
        by auto
      then have "bytes_left ?s' \<noteq> 0"
        using loop_events_stop [of ?s'] by blast
      with True have "unat (target_addr ?s') = unat (target_addr s) + 4096"
        by (simp add: loop_body_continues)
      with ih(2) that show ?thesis
        by auto
    qed
    have e: "erased (events_since s (program_loop s))
               = (if block_unchanged s then [] else [target_addr s]) @ ?rest"
      using True by (simp add: loop_events_continue erased_body_events)
    from far have far': "\<forall>a \<in> set ?rest. unat (target_addr s) + 4096 \<le> unat a \<and> unat a < 131072"
      by blast
    then have "\<forall>a \<in> set ?rest. unat (target_addr s) \<le> unat a \<and> unat a < 131072"
      by auto
    with ih(1) far' lt show ?thesis
      unfolding e by (simp add: sorted_wrt_append)
  qed
qed

lemma distinct_blocks:
  "sorted_wrt (\<lambda>a b. unat a + 4096 \<le> unat b) (xs :: u32 list) \<Longrightarrow>
     distinct (map (\<lambda>a. unat a div 4096) xs)"
proof (induction xs)
  case Nil
  show ?case by simp
next
  case (Cons x xs)
  have "unat x div 4096 \<noteq> unat y div 4096" if "y \<in> set xs" for y
  proof -
    from Cons.prems that have "unat x + 4096 \<le> unat y"
      by simp
    then have "unat x div 4096 + 1 \<le> unat y div 4096"
      using div_le_mono [of "unat x + 4096" "unat y" 4096] by simp
    then show ?thesis
      by simp
  qed
  with Cons show ?case
    by auto
qed

lemma flash_commands_page_events:
  "flash_commands (concat (map (page_events s) ks))
     = map (\<lambda>k. Ev_write (target_addr s + 256 * of_nat k)
                (ram_read s (current_ptr s + 256 * k) (min (unat (bytes_left s) - 256 * k) 256)))
         ks"
  by (induction ks) (simp_all add: flash_commands_def page_events_def)

lemma flash_commands_body_events:
  "flash_commands (body_events s) =
     (if block_unchanged s then []
      else Ev_erase (target_addr s)
           # map (\<lambda>k. Ev_write (target_addr s + 256 * of_nat k)
                  (ram_read s (current_ptr s + 256 * k)
                     (min (unat (bytes_left s) - 256 * k) 256)))
               [0..<page_count 0 (bytes_left s)])"
  using flash_commands_page_events [of s "[0..<page_count 0 (bytes_left s)]"]
  by (simp add: body_events_def flash_commands_def)

lemma block_changed_at:
  "i < 4096 \<Longrightarrow> flash s (unat (target_addr s) + i) \<noteq> cached_image s (current_ptr s + i) \<Longrightarrow>
     \<not> block_unchanged s"
  unfolding block_unchanged_iff by blast

section \<open>Skipped blocks and erased blocks\<close>

text \<open>
  The rounds of the programming loop. In a round in which the comparison of line 213
  finds the whole block of 4096 bytes equal to the 4096 bytes of the staging memory at
  \<^verbatim>\<open>current_ptr\<close>, no erase and no program command is issued, the flash stays as it is
  and the programmer advances past the block. In any other round the commands are the
  erase of the block followed at once by the programs of its pages, in ascending order,
  each of at most 256 bytes; if bytes are left after that, the programmer is at the next
  block. Over the whole loop the erased addresses lie in pairwise different blocks: no
  block is erased twice. The comparison is over a whole block also when fewer image
  bytes are left; what that means for the last block of an image is shown with the
  sample image in the section on two passes.
\<close>

theorem round_commands_and_erased_blocks:
  "(bytes_left s \<noteq> 0 \<and> target_addr s < 131072 \<and> block_unchanged s \<longrightarrow>
      flash_commands (events_since s (loop_body s)) = []
      \<and> flash (loop_body s) = flash s
      \<and> target_addr (loop_body s) = target_addr s + 4096
      \<and> current_ptr (loop_body s) = current_ptr s + 4096)
   \<and> (bytes_left s \<noteq> 0 \<and> target_addr s < 131072 \<and> \<not> block_unchanged s \<longrightarrow>
        flash_commands (events_since s (loop_body s))
          = Ev_erase (target_addr s)
            # map (\<lambda>k. Ev_write (target_addr s + 256 * of_nat k)
                   (ram_read s (current_ptr s + 256 * k)
                      (min (unat (bytes_left s) - 256 * k) 256)))
                [0..<page_count 0 (bytes_left s)]
        \<and> 1 \<le> page_count 0 (bytes_left s) \<and> page_count 0 (bytes_left s) \<le> 16
        \<and> (bytes_left (loop_body s) \<noteq> 0 \<longrightarrow>
             unat (target_addr (loop_body s)) = unat (target_addr s) + 4096))
   \<and> distinct (map (\<lambda>a. unat a div 4096) (erased (events_since s (program_loop s))))
   \<and> program_loop s
       = (if bytes_left s \<noteq> 0 \<and> target_addr s < 131072 then program_loop (loop_body s) else s)"
proof (intro conjI impI)
  have ev: "events_since s (loop_body s) = body_events s"
    by (simp add: loop_body_trace events_since_append)
  {
    assume a: "bytes_left s \<noteq> 0 \<and> target_addr s < 131072 \<and> block_unchanged s"
    then show "flash_commands (events_since s (loop_body s)) = []"
      by (simp add: ev flash_commands_body_events)
    from a show "flash (loop_body s) = flash s"
      and "target_addr (loop_body s) = target_addr s + 4096"
      and "current_ptr (loop_body s) = current_ptr s + 4096"
      by (simp_all add: loop_body_eq)
  }
  {
    assume a: "bytes_left s \<noteq> 0 \<and> target_addr s < 131072 \<and> \<not> block_unchanged s"
    then show "flash_commands (events_since s (loop_body s))
          = Ev_erase (target_addr s)
            # map (\<lambda>k. Ev_write (target_addr s + 256 * of_nat k)
                   (ram_read s (current_ptr s + 256 * k)
                      (min (unat (bytes_left s) - 256 * k) 256)))
                [0..<page_count 0 (bytes_left s)]"
      by (simp add: ev flash_commands_body_events)
    from a page_count_0 [of "bytes_left s"]
    show "1 \<le> page_count 0 (bytes_left s)" and "page_count 0 (bytes_left s) \<le> 16"
      by simp_all
    assume "bytes_left (loop_body s) \<noteq> 0"
    with a show "unat (target_addr (loop_body s)) = unat (target_addr s) + 4096"
      by (simp add: loop_body_continues)
  }
  from loop_erases_ascend [of s]
  show "distinct (map (\<lambda>a. unat a div 4096) (erased (events_since s (program_loop s))))"
    by (simp add: distinct_blocks)
  show "program_loop s
       = (if bytes_left s \<noteq> 0 \<and> target_addr s < 131072 then program_loop (loop_body s) else s)"
    by (rule program_loop.simps)
qed

theorem round_commands_and_erased_blocks_witness:
  "(bytes_left (sample_state\<lparr>flash := \<lambda>a. 0, bytes_left := 4096\<rparr>) \<noteq> 0
    \<and> target_addr (sample_state\<lparr>flash := \<lambda>a. 0, bytes_left := 4096\<rparr>) < 131072
    \<and> block_unchanged (sample_state\<lparr>flash := \<lambda>a. 0, bytes_left := 4096\<rparr>)
    \<and> flash_commands
         (events_since (sample_state\<lparr>flash := \<lambda>a. 0, bytes_left := 4096\<rparr>)
            (loop_body (sample_state\<lparr>flash := \<lambda>a. 0, bytes_left := 4096\<rparr>))) = []
    \<and> target_addr (loop_body (sample_state\<lparr>flash := \<lambda>a. 0, bytes_left := 4096\<rparr>)) = 4096)
   \<and> (bytes_left (sample_state\<lparr>bytes_left := 64\<rparr>) \<noteq> 0
    \<and> target_addr (sample_state\<lparr>bytes_left := 64\<rparr>) < 131072
    \<and> \<not> block_unchanged (sample_state\<lparr>bytes_left := 64\<rparr>)
    \<and> flash_commands
         (events_since (sample_state\<lparr>bytes_left := 64\<rparr>)
            (loop_body (sample_state\<lparr>bytes_left := 64\<rparr>)))
        = [Ev_erase 0, Ev_write 0 (replicate 64 0)])"
proof -
  let ?same = "sample_state\<lparr>flash := \<lambda>a. 0, bytes_left := 4096\<rparr>"
  let ?diff = "sample_state\<lparr>bytes_left := 64\<rparr>"
  have s1: "bytes_left ?same \<noteq> 0 \<and> target_addr ?same < 131072 \<and> block_unchanged ?same"
    by (simp add: block_unchanged_iff sample_state_def)
  from round_commands_and_erased_blocks [of ?same] s1
  have "flash_commands (events_since ?same (loop_body ?same)) = []
      \<and> target_addr (loop_body ?same) = target_addr ?same + 4096"
    by blast
  then have r1: "flash_commands (events_since ?same (loop_body ?same)) = []
      \<and> target_addr (loop_body ?same) = 4096"
    by (simp add: sample_state_def)
  have "\<not> block_unchanged ?diff"
    by (rule block_changed_at [of 0]) (simp_all add: sample_state_def sample_flash_def)
  then have s2: "bytes_left ?diff \<noteq> 0 \<and> target_addr ?diff < 131072 \<and> \<not> block_unchanged ?diff"
    by (simp add: sample_state_def)
  have n: "page_count 0 (64 :: u32) = 1"
    by (simp add: page_count_0_eq)
  from round_commands_and_erased_blocks [of ?diff] s2
  have "flash_commands (events_since ?diff (loop_body ?diff))
          = Ev_erase (target_addr ?diff)
            # map (\<lambda>k. Ev_write (target_addr ?diff + 256 * of_nat k)
                   (ram_read ?diff (current_ptr ?diff + 256 * k)
                      (min (unat (bytes_left ?diff) - 256 * k) 256)))
                [0..<page_count 0 (bytes_left ?diff)]"
    by blast
  then have r2: "flash_commands (events_since ?diff (loop_body ?diff))
        = [Ev_erase 0, Ev_write 0 (replicate 64 0)]"
    by (simp add: sample_state_def ram_read_def map_replicate_const n)
  from s1 r1 s2 r2 show ?thesis
    by blast
qed

text \<open>The events the programming loop can add when it starts at a page boundary.\<close>

fun loop_event :: "event \<Rightarrow> bool" where
  "loop_event (Ev_cfg4 v) = True"
| "loop_event (Ev_erase a) = (unat a < 131072)"
| "loop_event (Ev_write a bs) = (256 dvd unat a)"
| "loop_event (Ev_rgb_wheel c) = True"
| "loop_event e = False"

lemma loop_body_target_addr:
  "\<exists>m\<le>16. target_addr (loop_body s) = target_addr s + 256 * of_nat m"
proof (cases "block_unchanged s")
  case True
  then have "target_addr (loop_body s) = target_addr s + 256 * of_nat 16"
    by (simp add: loop_body_eq)
  then show ?thesis
    by blast
next
  case False
  then have "target_addr (loop_body s) = target_addr s + 256 * of_nat (page_count 0 (bytes_left s))"
    by (simp add: loop_body_eq)
  moreover have "page_count 0 (bytes_left s) \<le> 16"
    by (simp add: page_count_0_eq)
  ultimately show ?thesis
    by blast
qed

lemma unat_page_address:
  "unat (t :: u32) < 131072 \<Longrightarrow> m \<le> 16 \<Longrightarrow> unat (t + 256 * of_nat m) = unat t + 256 * m"
  by (simp add: unat_word_ariths unat_of_nat)

lemma body_events_loop_event:
  assumes "target_addr s < 131072" "256 dvd unat (target_addr s)"
  shows "\<forall>e \<in> set (body_events s). loop_event e"
proof -
  from assms(1) have lt: "unat (target_addr s) < 131072"
    by (simp add: word_less_nat_alt)
  have "page_count 0 (bytes_left s) \<le> 16"
    by (simp add: page_count_0_eq)
  then have "\<forall>k < page_count 0 (bytes_left s). 256 dvd unat (target_addr s + 256 * of_nat k)"
    using lt assms(2) by (simp add: unat_page_address)
  then show ?thesis
    using lt by (auto simp: body_events_def page_events_def)
qed

lemma loop_events_loop_event:
  "256 dvd unat (target_addr s) \<Longrightarrow>
     \<forall>e \<in> set (events_since s (program_loop s)). loop_event e"
proof (induction s rule: program_loop.induct)
  case (1 s)
  show ?case
  proof (cases "bytes_left s \<noteq> 0 \<and> target_addr s < 131072")
    case False
    then show ?thesis
      by (simp add: loop_events_stop)
  next
    case True
    then have lt: "unat (target_addr s) < 131072"
      by (simp add: word_less_nat_alt)
    from loop_body_target_addr [of s] obtain m
      where "m \<le> 16" "target_addr (loop_body s) = target_addr s + 256 * of_nat m"
      by blast
    with lt "1.prems" have "256 dvd unat (target_addr (loop_body s))"
      by (simp add: unat_page_address)
    with "1.IH" True
    have "\<forall>e \<in> set (events_since (loop_body s) (program_loop (loop_body s))). loop_event e"
      by simp
    with True "1.prems" body_events_loop_event [of s] show ?thesis
      by (auto simp: loop_events_continue)
  qed
qed

lemma msleep_eq:
  "\<exists>v. msleep env ms s
     = s\<lparr>timer0_en := 1, timer0_reload := 0, timer0_count := v, timer0_value := 0\<rparr>"
proof -
  let ?n = "(SYSTEM_CLOCK_FREQUENCY env div 1000 * ms) mod 2 ^ 32"
  have "msleep env ms s
     = s\<lparr>timer0_en := 1, timer0_reload := 0,
         timer0_count := (if ?n = 0 then ?n - 1 else 0), timer0_value := 0\<rparr>"
    by (simp add: msleep_def Let_def timer0_en_write_def timer0_reload_write_def
          timer0_load_write_def timer0_update_value_write_def msleep_loop_eq)
  then show ?thesis
    by blast
qed

lemma reboot_eq: "reboot s = s\<lparr>trace := trace s @ [Ev_reboot_ctrl 0xae]\<rparr>"
  by (simp add: reboot_def reboot_ctrl_write_def)

lemma finish_flashing_eq:
  "finish_flashing s =
     s\<lparr>flash := erase_block (program_page (flash s) 9 [0]) 0x5a000,
       spi_busy := 0,
       trace := trace s @ [Ev_write 9 [0], Ev_erase 0x5a000, Ev_reboot_ctrl 0xae]\<rparr>"
  by (simp add: finish_flashing_def erase_booster_def Let_def ftfl_busy_wait_eq
        ftfl_begin_erase_sector_def spiBeginWrite_def spiBeginErase4_def reboot_eq
        SPI_PROGRAM_PAGE_SIZE_def)

lemma fobooster_main_Inr:
  "fobooster_main XXH32 env s = Inr s' \<Longrightarrow>
     \<exists>s1 s2. validate XXH32 env s = Inr s1 \<and> confirm_identity env s1 = Inr s2
       \<and> s' = finish_flashing (msleep env 1000 (rgb_mode_writing (program_image s2)))"
  by (auto simp: fobooster_main_def Let_def split: sum.splits)

lemma program_image_trace:
  "\<exists>evs. trace (program_image s) = trace s @ evs \<and> (\<forall>e \<in> set evs. loop_event e)"
proof -
  let ?i = "s\<lparr>bytes_left := cached_image_length s, target_addr := 0, current_ptr := 0,
              wheel_c := 80\<rparr>"
  have "\<forall>e \<in> set (events_since ?i (program_loop ?i)). loop_event e"
    by (rule loop_events_loop_event) simp
  moreover have "trace (program_image s) = trace s @ events_since ?i (program_loop ?i)"
    using program_loop_trace_eq [of ?i] by (simp add: program_image_def)
  ultimately show ?thesis
    by blast
qed

lemma msleep_fields [simp]:
  "trace (msleep env ms s) = trace s" "flash (msleep env ms s) = flash s"
  using msleep_eq [of env ms s] by auto

lemma updater_sector:
  fixes a :: nat
  assumes "0x5a000 \<le> a" "a < 0x5b000"
  shows "a div 4096 = 0x5a000 div 4096"
proof -
  from assms have "a div 4096 = 90"
    by (intro div_nat_eqI) simp_all
  then show ?thesis
    by simp
qed

lemma erase_block_same: "a div 4096 = b div 4096 \<Longrightarrow> erase_block m b a = 0xFF"
  by (simp add: erase_block_def SPI_ERASE_SECTOR_SIZE_def)

lemma erase_block_other: "a div 4096 \<noteq> b div 4096 \<Longrightarrow> erase_block m b a = m a"
  by (simp add: erase_block_def SPI_ERASE_SECTOR_SIZE_def)

section \<open>The reboot handoff\<close>

text \<open>
  Claim C10. A run that does not halt in \<^verbatim>\<open>error\<close> ends, after the programming loop, with
  the handoff, once: the indicator is set to writing, a zero is programmed at address 9
  (the selector byte of the primary boot descriptor), the sector at \<^verbatim>\<open>0x5a000\<close> (the
  updater) is erased, and \<^verbatim>\<open>reboot_ctrl\<close> is written with \<^verbatim>\<open>0xac | 2\<close>, the reboot into image
  slot 2, after which nothing follows. No command before these events is a program
  command that starts at address 9 (the page program at address 0 does cover the byte),
  erases the sector at \<^verbatim>\<open>0x5a000\<close> or writes \<^verbatim>\<open>reboot_ctrl\<close>. Afterwards the flash holds 0
  at address 9 and \<^verbatim>\<open>0xFF\<close> throughout the updater's sector. A run ends this way whenever
  the size, hash, descriptor and identity checks pass.
\<close>

theorem reboot_handoff_once:
  "(fobooster_main XXH32 env s = Inr s' \<longrightarrow>
      (\<exists>evs. trace s' = trace s @ evs
                 @ [Ev_rgb_writing, Ev_write 9 [0], Ev_erase 0x5a000, Ev_reboot_ctrl 0xae]
         \<and> (\<forall>bs. Ev_write 9 bs \<notin> set evs)
         \<and> Ev_erase 0x5a000 \<notin> set evs
         \<and> (\<forall>v. Ev_reboot_ctrl v \<notin> set evs)
         \<and> Ev_rgb_writing \<notin> set evs)
      \<and> flash s' 9 = 0
      \<and> (\<forall>a. 0x5a000 \<le> a \<and> a < 0x5b000 \<longrightarrow> flash s' a = 0xFF))
   \<and> (unat (image_length env) \<le> 0x1a000 \<and> source_hash XXH32 env s = xxhash env
        \<and> map (staged env s) [0..<64] = multiboot_reference
        \<and> spi_id env = spi_chip_id s \<longrightarrow>
        (\<exists>s''. fobooster_main XXH32 env s = Inr s''))"
proof (intro conjI impI)
  assume "fobooster_main XXH32 env s = Inr s'"
  from fobooster_main_Inr [OF this] obtain s1 s2
    where v: "validate XXH32 env s = Inr s1" and c: "confirm_identity env s1 = Inr s2"
      and s': "s' = finish_flashing (msleep env 1000 (rgb_mode_writing (program_image s2)))"
    by blast
  from validate_Inr [OF v] have t1: "trace s1 = trace s"
    by auto
  from c have t2: "trace s2 = trace s1 @ [Ev_cfg4 0, Ev_spi_id]"
    by (auto simp: confirm_identity_eq split: if_splits)
  from program_image_trace [of s2] obtain lev
    where lev: "trace (program_image s2) = trace s2 @ lev" "\<forall>e \<in> set lev. loop_event e"
    by blast
  let ?w = "msleep env 1000 (rgb_mode_writing (program_image s2))"
  let ?evs = "[Ev_cfg4 0, Ev_spi_id] @ lev"
  have "trace ?w = trace (program_image s2) @ [Ev_rgb_writing]"
    by (simp add: rgb_mode_writing_def)
  then have tr: "trace s' = trace s @ ?evs
                 @ [Ev_rgb_writing, Ev_write 9 [0], Ev_erase 0x5a000, Ev_reboot_ctrl 0xae]"
    by (simp add: s' finish_flashing_eq lev(1) t2 t1)
  have "\<not> loop_event (Ev_write 9 bs)" for bs
    by simp
  with lev(2) have n1: "\<forall>bs. Ev_write 9 bs \<notin> set lev"
    by blast
  have "\<not> loop_event (Ev_erase 0x5a000)"
    by simp
  with lev(2) have n2: "Ev_erase 0x5a000 \<notin> set lev"
    by blast
  have "\<not> loop_event (Ev_reboot_ctrl v)" for v
    by simp
  with lev(2) have n3: "\<forall>v. Ev_reboot_ctrl v \<notin> set lev"
    by blast
  have "\<not> loop_event Ev_rgb_writing"
    by simp
  with lev(2) have n4: "Ev_rgb_writing \<notin> set lev"
    by blast
  from n1 n2 n3 n4 have "(\<forall>bs. Ev_write 9 bs \<notin> set ?evs) \<and> Ev_erase 0x5a000 \<notin> set ?evs
         \<and> (\<forall>v. Ev_reboot_ctrl v \<notin> set ?evs) \<and> Ev_rgb_writing \<notin> set ?evs"
    by simp
  with tr show "\<exists>evs. trace s' = trace s @ evs
                 @ [Ev_rgb_writing, Ev_write 9 [0], Ev_erase 0x5a000, Ev_reboot_ctrl 0xae]
         \<and> (\<forall>bs. Ev_write 9 bs \<notin> set evs)
         \<and> Ev_erase 0x5a000 \<notin> set evs
         \<and> (\<forall>v. Ev_reboot_ctrl v \<notin> set evs)
         \<and> Ev_rgb_writing \<notin> set evs"
    by blast
  have f: "flash s' = erase_block (program_page (flash ?w) 9 [0]) 0x5a000"
    by (simp add: s' finish_flashing_eq)
  show "flash s' 9 = 0"
    by (simp add: f erase_block_other program_page_def SPI_PROGRAM_PAGE_SIZE_def)
  show "\<forall>a. 0x5a000 \<le> a \<and> a < 0x5b000 \<longrightarrow> flash s' a = 0xFF"
    unfolding f by (intro allI impI erase_block_same updater_sector) simp_all
next
  assume a: "unat (image_length env) \<le> 0x1a000 \<and> source_hash XXH32 env s = xxhash env
        \<and> map (staged env s) [0..<64] = multiboot_reference
        \<and> spi_id env = spi_chip_id s"
  then obtain ta where "validate XXH32 env s
       = Inr (s\<lparr>cached_image := (staged env s)(9 := 0x04),
                calculated_hash := xxhash env, target_addr := ta\<rparr>)"
    using validate_ok [of env XXH32 s] by blast
  with a show "\<exists>s''. fobooster_main XXH32 env s = Inr s''"
    by (simp add: fobooster_main_def confirm_identity_eq Let_def)
qed

theorem reboot_handoff_once_witness:
  "unat (image_length sample_env) \<le> 0x1a000
   \<and> source_hash sample_XXH32 sample_env sample_state = xxhash sample_env
   \<and> map (staged sample_env sample_state) [0..<64] = multiboot_reference
   \<and> spi_id sample_env = spi_chip_id sample_state
   \<and> (\<exists>s'. fobooster_main sample_XXH32 sample_env sample_state = Inr s'
          \<and> (\<exists>evs. trace s' = evs
                 @ [Ev_rgb_writing, Ev_write 9 [0], Ev_erase 0x5a000, Ev_reboot_ctrl 0xae]
               \<and> Ev_erase 0x5a000 \<notin> set evs)
          \<and> flash s' 9 = 0)"
proof -
  have p1: "unat (image_length sample_env) \<le> 0x1a000"
    by (simp add: sample_env_def)
  have p2: "source_hash sample_XXH32 sample_env sample_state = xxhash sample_env"
    by (simp add: source_hash_def sample_XXH32_def sample_env_def)
  have p3: "map (staged sample_env sample_state) [0..<64] = multiboot_reference"
    by (rule sample_staged) (simp add: sample_state_def)
  have p4: "spi_id sample_env = spi_chip_id sample_state"
    by (simp add: sample_env_def sample_state_def)
  from reboot_handoff_once [of sample_XXH32 sample_env sample_state] p1 p2 p3 p4
  obtain s' where s': "fobooster_main sample_XXH32 sample_env sample_state = Inr s'"
    by blast
  have t0: "trace sample_state = []"
    by (simp add: sample_state_def)
  from reboot_handoff_once [of sample_XXH32 sample_env sample_state s'] s'
  have "(\<exists>evs. trace s' = trace sample_state @ evs
                 @ [Ev_rgb_writing, Ev_write 9 [0], Ev_erase 0x5a000, Ev_reboot_ctrl 0xae]
               \<and> Ev_erase 0x5a000 \<notin> set evs)
          \<and> flash s' 9 = 0"
    by blast
  with s' have "\<exists>s'. fobooster_main sample_XXH32 sample_env sample_state = Inr s'
          \<and> (\<exists>evs. trace s' = evs
                 @ [Ev_rgb_writing, Ev_write 9 [0], Ev_erase 0x5a000, Ev_reboot_ctrl 0xae]
               \<and> Ev_erase 0x5a000 \<notin> set evs)
          \<and> flash s' 9 = 0"
    unfolding t0 by auto
  with p1 p2 p3 p4 show ?thesis
    by blast
qed

lemma program_page_other:
  "a div 256 \<noteq> addr div 256 \<Longrightarrow> program_page m addr bs a = m a"
  by (simp add: program_page_def SPI_PROGRAM_PAGE_SIZE_def)

lemma page_body_flash:
  "flash (page_body s)
     = program_page (flash s) (unat (target_addr s))
         (ram_read s (current_ptr s) (unat (page_bytes s)))"
  by (simp add: page_body_eq)

lemma div_256_outside:
  fixes b t :: nat
  assumes "256 dvd t" "b < t \<or> t + 256 \<le> b"
  shows "b div 256 \<noteq> t div 256"
proof -
  from assms(1) obtain q where q: "t = 256 * q" ..
  from assms(2) show ?thesis
  proof
    assume "b < t"
    with q have "b div 256 < q"
      by (simp add: div_less_iff_less_mult mult.commute)
    with q show ?thesis by simp
  next
    assume "t + 256 \<le> b"
    with q have "256 * Suc q \<le> b" by simp
    then have "Suc q \<le> b div 256"
      by (simp add: less_eq_div_iff_mult_less_eq mult.commute)
    with q show ?thesis by simp
  qed
qed

lemma div_4096_outside:
  fixes b t :: nat
  assumes "4096 dvd t" "b < t \<or> t + 4096 \<le> b"
  shows "b div 4096 \<noteq> t div 4096"
proof -
  from assms(1) obtain q where q: "t = 4096 * q" ..
  from assms(2) show ?thesis
  proof
    assume "b < t"
    with q have "b div 4096 < q"
      by (simp add: div_less_iff_less_mult mult.commute)
    with q show ?thesis by simp
  next
    assume "t + 4096 \<le> b"
    with q have "4096 * Suc q \<le> b" by simp
    then have "Suc q \<le> b div 4096"
      by (simp add: less_eq_div_iff_mult_less_eq mult.commute)
    with q show ?thesis by simp
  qed
qed

text \<open>The page programs of a block leave the flash outside their pages as it is.\<close>

lemma pages_flash_frame:
  assumes "256 dvd unat (target_addr s)" "unat (target_addr s) < 131072" "n \<le> 16"
    and "b < unat (target_addr s) \<or> unat (target_addr s) + 256 * n \<le> b"
  shows "flash ((page_body ^^ n) s) b = flash s b"
  using assms(3,4)
proof (induction n)
  case 0
  show ?case by simp
next
  case (Suc n)
  let ?t = "unat (target_addr s)"
  have u: "unat (target_addr ((page_body ^^ n) s)) = ?t + 256 * n"
    using assms(2) Suc.prems(1) by (simp add: unat_page_address)
  with assms(1) have d: "256 dvd unat (target_addr ((page_body ^^ n) s))"
    by simp
  from Suc.prems(2) have "b < ?t + 256 * n \<or> ?t + 256 * n + 256 \<le> b"
    by auto
  with d u have "b div 256 \<noteq> unat (target_addr ((page_body ^^ n) s)) div 256"
    using div_256_outside [of "?t + 256 * n" b] by simp
  then have "flash ((page_body ^^ Suc n) s) b = flash ((page_body ^^ n) s) b"
    by (simp add: page_body_flash program_page_other)
  also from Suc have "\<dots> = flash s b"
    by auto
  finally show ?case .
qed

text \<open>A round of the programming loop leaves the flash outside its block as it is.\<close>

lemma loop_body_flash_frame:
  assumes "4096 dvd unat (target_addr s)" "target_addr s < 131072"
    and "b < unat (target_addr s) \<or> unat (target_addr s) + 4096 \<le> b"
  shows "flash (loop_body s) b = flash s b"
proof (cases "block_unchanged s")
  case True
  then show ?thesis
    by (simp add: loop_body_eq)
next
  case False
  let ?t = "unat (target_addr s)"
  let ?e = "s\<lparr>flash := erase_block (flash s) ?t, spi_busy := spi_op_polls s,
              trace := trace s @ [Ev_cfg4 0x80, Ev_cfg4 0, Ev_erase (target_addr s)]\<rparr>"
  let ?n = "page_count 0 (bytes_left s)"
  from assms(2) have lt: "?t < 131072"
    by (simp add: word_less_nat_alt)
  have n: "?n \<le> 16"
    by (simp add: page_count_0_eq)
  from assms(1) have d: "256 dvd ?t"
    by (rule dvd_trans [rotated]) simp
  from n assms(3) have out: "b < ?t \<or> ?t + 256 * ?n \<le> b"
    by auto
  have "flash ((page_body ^^ ?n) ?e) b = flash ?e b"
    by (rule pages_flash_frame) (use d lt n out in simp_all)
  also have "\<dots> = flash s b"
    using div_4096_outside [OF assms(1,3)] by (simp add: erase_block_other)
  finally show ?thesis
    using False by (simp add: loop_body_eq)
qed

text \<open>
  How often a list of events switches the mapped window on (line 210), that is how many
  blocks were read back and compared.
\<close>

definition block_reads :: "event list \<Rightarrow> nat" where
  "block_reads evs = length (filter (\<lambda>e. e = Ev_cfg4 0x80) evs)"

lemma block_reads_append [simp]: "block_reads (xs @ ys) = block_reads xs + block_reads ys"
  by (simp add: block_reads_def)

lemma block_reads_page_events [simp]: "block_reads (concat (map (page_events s) ks)) = 0"
  by (induction ks) (simp_all add: block_reads_def page_events_def)

lemma block_reads_body_events [simp]: "block_reads (body_events s) = 1"
  using block_reads_page_events [of s "[0..<page_count 0 (bytes_left s)]", unfolded block_reads_def]
  by (simp add: body_events_def block_reads_def)

text \<open>
  When more bytes are left than fit below \<^verbatim>\<open>131072\<close>, rounded up to a block, every round
  is a whole block and the loop ends only by the address bound.
\<close>

lemma program_loop_overrun:
  assumes "135167 < unat (bytes_left s) + unat (target_addr s)"
    and "unat (target_addr s) < 135168"
  shows "bytes_left (program_loop s) \<noteq> 0
    \<and> 131072 \<le> unat (target_addr (program_loop s))
    \<and> unat (target_addr s) \<le> unat (target_addr (program_loop s))
    \<and> unat (target_addr (program_loop s)) mod 4096 = unat (target_addr s) mod 4096
    \<and> unat (target_addr (program_loop s)) < 135168
    \<and> current_ptr (program_loop s) + unat (target_addr s)
        = current_ptr s + unat (target_addr (program_loop s))
    \<and> block_reads (events_since s (program_loop s))
        = (unat (target_addr (program_loop s)) - unat (target_addr s)) div 4096"
  using assms
proof (induction s rule: program_loop.induct)
  case (1 s)
  let ?t = "unat (target_addr s)"
  from "1.prems" have pos: "bytes_left s \<noteq> 0"
    by (auto simp: unat_eq_0)
  show ?case
  proof (cases "target_addr s < 131072")
    case False
    then have "131072 \<le> ?t"
      by (simp add: word_less_nat_alt)
    with False pos "1.prems" show ?thesis
      by (simp add: program_loop_stop events_since_def block_reads_def)
  next
    case True
    let ?s' = "loop_body s"
    let ?f = "program_loop ?s'"
    from True have lt: "?t < 131072"
      by (simp add: word_less_nat_alt)
    with "1.prems" have full: "4096 \<le> unat (bytes_left s)"
      by simp
    from loop_body_full [OF full] lt
    have t': "unat (target_addr ?s') = ?t + 4096"
      and c': "current_ptr ?s' = current_ptr s + 4096"
      and b': "unat (bytes_left ?s') = unat (bytes_left s) - 4096"
      by (simp_all add: unat_add_4096)
    from t' b' full lt "1.prems"
    have p: "135167 < unat (bytes_left ?s') + unat (target_addr ?s')"
      "unat (target_addr ?s') < 135168"
      by simp_all
    from "1.IH" [OF _ p] pos True
    have ih: "bytes_left ?f \<noteq> 0" "131072 \<le> unat (target_addr ?f)"
      "unat (target_addr ?s') \<le> unat (target_addr ?f)"
      "unat (target_addr ?f) mod 4096 = unat (target_addr ?s') mod 4096"
      "unat (target_addr ?f) < 135168"
      "current_ptr ?f + unat (target_addr ?s') = current_ptr ?s' + unat (target_addr ?f)"
      "block_reads (events_since ?s' ?f) = (unat (target_addr ?f) - unat (target_addr ?s')) div 4096"
      by simp_all
    have e: "program_loop s = ?f"
      using pos True by (rule program_loop_continue)
    have r: "block_reads (events_since s (program_loop s))
               = 1 + block_reads (events_since ?s' ?f)"
      using pos True by (simp add: loop_events_continue)
    from ih(3) t' have "(unat (target_addr ?f) - ?t) div 4096
        = Suc ((unat (target_addr ?f) - (?t + 4096)) div 4096)"
      by (simp add: le_div_geq)
    with ih t' c' r show ?thesis
      unfolding e by simp
  qed
qed

lemma first_page_event:
  assumes "256 \<le> unat (bytes_left s)"
  shows "Ev_write (target_addr s) (ram_read s (current_ptr s) 256)
           \<in> set (concat (map (page_events s) [0..<page_count 0 (bytes_left s)]))"
proof -
  from assms have "bytes_left s \<noteq> 0"
    by auto
  from page_count_0 [OF this] have "0 \<in> set [0..<page_count 0 (bytes_left s)]"
    by simp
  moreover from assms
  have "Ev_write (target_addr s) (ram_read s (current_ptr s) 256) \<in> set (page_events s 0)"
    by (simp add: page_events_def)
  ultimately show ?thesis
    unfolding set_concat by (intro UN_I [of "page_events s 0"]) auto
qed

text \<open>
  In the regime of \<open>program_loop_overrun\<close> every block up to \<^verbatim>\<open>131072\<close> whose flash
  differs from the memory the pointer has reached is erased and programmed from there.
\<close>

lemma overrun_erases_changed_blocks:
  assumes "135167 < unat (bytes_left s) + unat (target_addr s)"
    and "4096 dvd unat (target_addr s)"
    and "unat (target_addr s) \<le> a" "a < 131072" "4096 dvd a" "i < 4096"
    and "flash s (a + i) \<noteq> cached_image s (current_ptr s + (a - unat (target_addr s)) + i)"
  shows "Ev_erase (of_nat a) \<in> set (events_since s (program_loop s))
    \<and> Ev_write (of_nat a) (ram_read s (current_ptr s + (a - unat (target_addr s))) 256)
        \<in> set (events_since s (program_loop s))"
  using assms(1,2,3,7)
proof (induction s rule: program_loop.induct)
  case (1 s)
  let ?t = "unat (target_addr s)"
  let ?s' = "loop_body s"
  from "1.prems"(3) assms(4) have lt: "?t < 131072"
    by simp
  then have c: "target_addr s < 131072"
    by (simp add: word_less_nat_alt)
  from lt "1.prems"(1) have full: "4096 \<le> unat (bytes_left s)"
    by simp
  then have pos: "bytes_left s \<noteq> 0"
    by auto
  have ev: "events_since s (program_loop s)
              = body_events s @ events_since ?s' (program_loop ?s')"
    using pos c by (rule loop_events_continue)
  show ?case
  proof (cases "a = ?t")
    case True
    with "1.prems"(4) assms(6) have ch: "\<not> block_unchanged s"
      by (intro block_changed_at [of i]) simp_all
    from full have "256 \<le> unat (bytes_left s)"
      by simp
    from first_page_event [OF this] ch True show ?thesis
      by (simp add: ev body_events_def)
  next
    case False
    from "1.prems"(2) obtain q where q: "?t = 4096 * q" ..
    from assms(5) obtain r where r: "a = 4096 * r" ..
    from False "1.prems"(3) have "?t < a"
      by simp
    then have "4096 * q < 4096 * r"
      unfolding q r .
    then have "q < r"
      by simp
    then have "Suc q \<le> r"
      by simp
    then have "4096 * Suc q \<le> 4096 * r"
      by (rule mult_le_mono2)
    with q r have far: "?t + 4096 \<le> a"
      by simp
    from loop_body_full [OF full] lt
    have t': "unat (target_addr ?s') = ?t + 4096"
      and c': "current_ptr ?s' = current_ptr s + 4096"
      and b': "unat (bytes_left ?s') = unat (bytes_left s) - 4096"
      by (simp_all add: unat_add_4096)
    from far have "flash ?s' (a + i) = flash s (a + i)"
      by (intro loop_body_flash_frame "1.prems"(2) c) simp
    with "1.prems"(4) far t' c'
    have d: "flash ?s' (a + i)
          \<noteq> cached_image ?s' (current_ptr ?s' + (a - unat (target_addr ?s')) + i)"
      by (simp add: add.assoc [symmetric])
    from t' b' full "1.prems"(1)
    have p1: "135167 < unat (bytes_left ?s') + unat (target_addr ?s')"
      by simp
    from t' "1.prems"(2) have p2: "4096 dvd unat (target_addr ?s')"
      by simp
    from t' far have p3: "unat (target_addr ?s') \<le> a"
      by simp
    have rr: "ram_read ?s' = ram_read s"
      by (rule ram_read_cong) simp
    from far t' c' have off: "current_ptr ?s' + (a - unat (target_addr ?s'))
        = current_ptr s + (a - ?t)"
      by simp
    from "1.IH" [OF _ p1 p2 p3 d] pos c show ?thesis
      by (simp add: ev rr off)
  qed
qed

lemma ram_read_const: "cached_image s = (\<lambda>i. c) \<Longrightarrow> ram_read s off n = replicate n c"
  by (simp add: ram_read_def map_replicate_const)

text \<open>
  What happens when a block of the flash is found unchanged while fewer than 4096 bytes
  are left.
\<close>

lemma skip_wraps_and_overruns:
  assumes "bytes_left s \<noteq> 0" "target_addr s < 131072" "4096 dvd unat (target_addr s)"
    and "bytes_left s < 4096" "block_unchanged s"
  shows "unat (bytes_left (loop_body s)) = unat (bytes_left s) + 2 ^ 32 - 4096
    \<and> bytes_left (program_loop s) \<noteq> 0
    \<and> target_addr (program_loop s) = 131072
    \<and> block_reads (events_since s (program_loop s)) = (131072 - unat (target_addr s)) div 4096
    \<and> current_ptr (program_loop s) = current_ptr s + (131072 - unat (target_addr s))
    \<and> (\<forall>a i. unat (target_addr s) < a \<and> a < 131072 \<and> 4096 dvd a \<and> i < 4096
           \<and> flash s (a + i) \<noteq> cached_image s (current_ptr s + (a - unat (target_addr s)) + i)
         \<longrightarrow> Ev_erase (of_nat a) \<in> set (events_since s (program_loop s))
           \<and> Ev_write (of_nat a) (ram_read s (current_ptr s + (a - unat (target_addr s))) 256)
               \<in> set (events_since s (program_loop s)))"
proof -
  let ?t = "unat (target_addr s)"
  let ?s' = "loop_body s"
  let ?f = "program_loop ?s'"
  from assms(2) have lt: "?t < 131072"
    by (simp add: word_less_nat_alt)
  from assms(4) have short: "unat (bytes_left s) < 4096"
    by (simp add: word_less_nat_alt)
  have s': "?s' = s\<lparr>trace := trace s @ [Ev_cfg4 0x80, Ev_cfg4 0],
             current_ptr := current_ptr s + 4096,
             target_addr := target_addr s + 4096,
             bytes_left := bytes_left s - 4096\<rparr>"
    using assms(5) by (simp add: loop_body_eq)
  have wrap: "unat (bytes_left s - 4096) = unat (bytes_left s) + 2 ^ 32 - 4096"
    using short by (simp add: unat_sub_if_size word_size)
  have b': "unat (bytes_left ?s') = unat (bytes_left s) + 2 ^ 32 - 4096"
    by (simp add: s' wrap)
  have t': "unat (target_addr ?s') = ?t + 4096"
    using lt by (simp add: s' unat_add_4096)
  have c': "current_ptr ?s' = current_ptr s + 4096"
    by (simp add: s')
  from b' t' have p1: "135167 < unat (bytes_left ?s') + unat (target_addr ?s')"
    by simp
  from t' lt have p2: "unat (target_addr ?s') < 135168"
    by simp
  from t' assms(3) have p3: "4096 dvd unat (target_addr ?s')"
    by simp
  have e: "program_loop s = ?f"
    using assms(1,2) by (rule program_loop_continue)
  have ev: "events_since s (program_loop s) = body_events s @ events_since ?s' ?f"
    using assms(1,2) by (rule loop_events_continue)
  from program_loop_overrun [OF p1 p2]
  have o: "bytes_left ?f \<noteq> 0" "131072 \<le> unat (target_addr ?f)"
    "unat (target_addr ?f) mod 4096 = unat (target_addr ?s') mod 4096"
    "unat (target_addr ?f) < 135168"
    "current_ptr ?f + unat (target_addr ?s') = current_ptr ?s' + unat (target_addr ?f)"
    "block_reads (events_since ?s' ?f)
       = (unat (target_addr ?f) - unat (target_addr ?s')) div 4096"
    by simp_all
  from o(3) p3 have "4096 dvd unat (target_addr ?f)"
    by (simp add: dvd_eq_mod_eq_0)
  then obtain q where q: "unat (target_addr ?f) = 4096 * q" ..
  with o(2,4) have "32 \<le> q" "q < 33"
    by simp_all
  with q have tf: "unat (target_addr ?f) = 131072"
    by simp
  then have tfw: "target_addr ?f = 131072"
    by (simp add: word_unat_eq_iff)
  from assms(3) obtain k where k: "?t = 4096 * k" ..
  with lt have k32: "k < 32"
    by simp
  have reads: "block_reads (events_since s (program_loop s)) = (131072 - ?t) div 4096"
  proof -
    have "block_reads (events_since s (program_loop s))
            = Suc ((131072 - (?t + 4096)) div 4096)"
      by (simp add: ev o(6) tf t')
    also have "\<dots> = (131072 - ?t) div 4096"
      using k k32 by (simp add: le_div_geq)
    finally show ?thesis .
  qed
  have ptr: "current_ptr (program_loop s) = current_ptr s + (131072 - ?t)"
    using o(5) lt by (simp add: e tf t' c')
  have later: "Ev_erase (of_nat a) \<in> set (events_since s (program_loop s))
           \<and> Ev_write (of_nat a) (ram_read s (current_ptr s + (a - ?t)) 256)
               \<in> set (events_since s (program_loop s))"
    if a: "?t < a \<and> a < 131072 \<and> 4096 dvd a \<and> i < 4096
           \<and> flash s (a + i) \<noteq> cached_image s (current_ptr s + (a - ?t) + i)" for a i
  proof -
    from a obtain r where r: "a = 4096 * r"
      by (auto elim: dvdE)
    from a have "4096 * k < 4096 * r"
      unfolding k r by simp
    then have "Suc k \<le> r"
      by simp
    then have "4096 * Suc k \<le> 4096 * r"
      by (rule mult_le_mono2)
    with k r have far: "?t + 4096 \<le> a"
      by simp
    with t' have q3: "unat (target_addr ?s') \<le> a"
      by simp
    from far t' c' have off: "current_ptr ?s' + (a - unat (target_addr ?s'))
        = current_ptr s + (a - ?t)"
      by simp
    have fl: "flash ?s' = flash s" and ci: "cached_image ?s' = cached_image s"
      by (simp_all add: s')
    from a have "flash s (a + i) \<noteq> cached_image s (current_ptr s + (a - ?t) + i)"
      by blast
    then have d: "flash ?s' (a + i)
          \<noteq> cached_image ?s' (current_ptr ?s' + (a - unat (target_addr ?s')) + i)"
      unfolding off fl ci .
    have rr: "ram_read ?s' = ram_read s"
      by (rule ram_read_cong) (rule ci)
    from a have q4: "a < 131072" and q5: "4096 dvd a" and q6: "i < 4096"
      by simp_all
    from overrun_erases_changed_blocks [OF p1 p3 q3 q4 q5 q6 d] show ?thesis
      unfolding off rr ev by simp
  qed
  from b' o(1) tfw reads ptr later show ?thesis
    unfolding e [symmetric] by blast
qed

section \<open>The skip of a short last block\<close>

text \<open>
  Claim C4. Let a round of the programming loop find its block unchanged while fewer
  than 4096 bytes are left (the loop is at a block boundary, as it always is in
  \<^verbatim>\<open>fobooster_main\<close>). Then \<^verbatim>\<open>bytes_left -= SPI_ERASE_SECTOR_SIZE\<close> wraps modulo \<open>2^32\<close>
  to a value that is not zero, and the loop does not stop at the end of the image: it
  ends with \<^verbatim>\<open>bytes_left\<close> not zero and \<^verbatim>\<open>target_addr\<close> equal to 131072, having read back and
  compared every block from its own up to 131072, with the pointer that far beyond where
  it was. Every one of these later blocks whose flash content differs from the memory
  the pointer has reached, which lies behind the image, is erased and programmed from
  that memory.
\<close>

theorem short_block_skip_wraps:
  assumes "bytes_left s \<noteq> 0" "target_addr s < 131072" "4096 dvd unat (target_addr s)"
    and "bytes_left s < 4096" "block_unchanged s"
  shows "unat (bytes_left (loop_body s)) = unat (bytes_left s) + 2 ^ 32 - 4096
    \<and> bytes_left (program_loop s) \<noteq> 0
    \<and> target_addr (program_loop s) = 131072
    \<and> block_reads (events_since s (program_loop s)) = (131072 - unat (target_addr s)) div 4096
    \<and> current_ptr (program_loop s) = current_ptr s + (131072 - unat (target_addr s))
    \<and> (\<forall>a i. unat (target_addr s) < a \<and> a < 131072 \<and> 4096 dvd a \<and> i < 4096
           \<and> flash s (a + i) \<noteq> cached_image s (current_ptr s + (a - unat (target_addr s)) + i)
         \<longrightarrow> Ev_erase (of_nat a) \<in> set (events_since s (program_loop s))
           \<and> Ev_write (of_nat a) (ram_read s (current_ptr s + (a - unat (target_addr s))) 256)
               \<in> set (events_since s (program_loop s)))"
  using assms by (rule skip_wraps_and_overruns)

text \<open>
  The instance: 100 bytes are left, block 0 of the flash is zero like the memory behind
  \<^verbatim>\<open>cached_image\<close>, the flash behind block 0 is erased.
\<close>

definition short_skip_state :: booster where
  "short_skip_state =
     sample_state\<lparr>flash := (\<lambda>a. if a < 4096 then 0 else 0xFF), bytes_left := 100\<rparr>"

theorem short_block_skip_wraps_witness:
  "bytes_left short_skip_state \<noteq> 0 \<and> target_addr short_skip_state < 131072
   \<and> 4096 dvd unat (target_addr short_skip_state)
   \<and> bytes_left short_skip_state < 4096 \<and> block_unchanged short_skip_state
   \<and> unat (bytes_left (loop_body short_skip_state)) = 4294963300
   \<and> bytes_left (program_loop short_skip_state) \<noteq> 0
   \<and> target_addr (program_loop short_skip_state) = 131072
   \<and> block_reads (events_since short_skip_state (program_loop short_skip_state)) = 32
   \<and> Ev_erase 4096 \<in> set (events_since short_skip_state (program_loop short_skip_state))
   \<and> Ev_write 4096 (replicate 256 0)
        \<in> set (events_since short_skip_state (program_loop short_skip_state))"
proof -
  let ?s = short_skip_state
  have h: "bytes_left ?s \<noteq> 0" "target_addr ?s < 131072" "4096 dvd unat (target_addr ?s)"
    "bytes_left ?s < 4096"
    by (simp_all add: short_skip_state_def sample_state_def)
  have u: "block_unchanged ?s"
    by (simp add: block_unchanged_iff short_skip_state_def sample_state_def)
  note w = short_block_skip_wraps [OF h u]
  have v: "unat (target_addr ?s) = 0" "unat (bytes_left ?s) = 100" "current_ptr ?s = 0"
    by (simp_all add: short_skip_state_def sample_state_def)
  have d: "(0 :: nat) < 4096 \<and> (4096 :: nat) < 131072 \<and> (4096 :: nat) dvd 4096
      \<and> (0 :: nat) < 4096
      \<and> flash ?s (4096 + 0) \<noteq> cached_image ?s (0 + (4096 - 0) + 0)"
    by (simp add: short_skip_state_def sample_state_def)
  from w have "\<forall>a i. unat (target_addr ?s) < a \<and> a < 131072 \<and> 4096 dvd a \<and> i < 4096
           \<and> flash ?s (a + i) \<noteq> cached_image ?s (current_ptr ?s + (a - unat (target_addr ?s)) + i)
         \<longrightarrow> Ev_erase (of_nat a) \<in> set (events_since ?s (program_loop ?s))
           \<and> Ev_write (of_nat a) (ram_read ?s (current_ptr ?s + (a - unat (target_addr ?s))) 256)
               \<in> set (events_since ?s (program_loop ?s))"
    by blast
  from this [unfolded v, rule_format, of 4096 0] d
  have er: "Ev_erase (of_nat 4096) \<in> set (events_since ?s (program_loop ?s))
           \<and> Ev_write (of_nat 4096) (ram_read ?s (0 + (4096 - 0)) 256)
               \<in> set (events_since ?s (program_loop ?s))"
    by blast
  have rr: "ram_read ?s (0 + (4096 - 0)) 256 = replicate 256 0"
    by (rule ram_read_const) (simp add: short_skip_state_def sample_state_def)
  from er have e: "Ev_erase 4096 \<in> set (events_since ?s (program_loop ?s))
      \<and> Ev_write 4096 (replicate 256 0) \<in> set (events_since ?s (program_loop ?s))"
    unfolding rr by simp
  from w have "unat (bytes_left (loop_body ?s)) = unat (bytes_left ?s) + 2 ^ 32 - 4096
    \<and> bytes_left (program_loop ?s) \<noteq> 0
    \<and> target_addr (program_loop ?s) = 131072
    \<and> block_reads (events_since ?s (program_loop ?s)) = (131072 - unat (target_addr ?s)) div 4096"
    by blast
  then have "unat (bytes_left (loop_body ?s)) = 4294963300
    \<and> bytes_left (program_loop ?s) \<noteq> 0
    \<and> target_addr (program_loop ?s) = 131072
    \<and> block_reads (events_since ?s (program_loop ?s)) = 32"
    unfolding v by simp
  with h u e show ?thesis
    by blast
qed

lemma msleep_locals [simp]:
  "target_addr (msleep env ms s) = target_addr s" "bytes_left (msleep env ms s) = bytes_left s"
  using msleep_eq [of env ms s] by auto

lemma single_round:
  assumes "bytes_left s \<noteq> 0" "target_addr s < 131072" "unat (bytes_left s) < 4096"
    and "\<not> block_unchanged s"
  shows "program_loop s = loop_body s"
proof -
  have "bytes_left (loop_body s) = 0"
    using loop_body_leaves_bytes [OF assms(4)] assms(3) by fastforce
  then have "program_loop (loop_body s) = loop_body s"
    by (simp add: program_loop_stop)
  with assms(1,2) show ?thesis
    by (simp add: program_loop_continue)
qed

text \<open>
  The state in which the sample run, or one on another flash content, enters the
  programming loop: the image is staged, the identity is confirmed.
\<close>

definition sample_loop_entry :: "(nat \<Rightarrow> u8) \<Rightarrow> booster" where
  "sample_loop_entry fl =
     sample_state\<lparr>flash := fl,
       cached_image := (\<lambda>i. if i < 64 then multiboot_reference ! i else 0),
       calculated_hash := 64, read_spi_id := 0x1234, cached_image_length := 64,
       cached_spi_id := 0x1234, bytes_left := 64, target_addr := 0, current_ptr := 0,
       wheel_c := 80, trace := [Ev_cfg4 0, Ev_spi_id]\<rparr>"

lemma sample_staged_patched:
  assumes "\<forall>i<64. fl (0x40000 + i) = multiboot_reference ! i"
  shows "(staged sample_env (sample_state\<lparr>flash := fl\<rparr>))(9 := 0x04)
           = (\<lambda>i. if i < 64 then multiboot_reference ! i else 0)"
  using assms
  by (auto simp: fun_eq_iff staged_def copy_payload_def sample_env_def sample_state_def
        multiboot_reference_9)

lemma sample_run:
  assumes "\<forall>i<64. fl (0x40000 + i) = multiboot_reference ! i"
  shows "fobooster_main sample_XXH32 sample_env (sample_state\<lparr>flash := fl\<rparr>)
           = Inr (finish_flashing (msleep sample_env 1000
                   (rgb_mode_writing (program_loop (sample_loop_entry fl)))))"
proof -
  let ?s = "sample_state\<lparr>flash := fl\<rparr>"
  have p1: "unat (image_length sample_env) \<le> 0x1a000"
    by (simp add: sample_env_def)
  have p2: "source_hash sample_XXH32 sample_env ?s = xxhash sample_env"
    by (simp add: source_hash_def sample_XXH32_def sample_env_def)
  from assms have p3: "map (staged sample_env ?s) [0..<64] = multiboot_reference"
    by (simp add: list_eq_iff_nth_eq length_multiboot_reference staged_def copy_payload_def
          sample_env_def)
  from validate_ok [OF p1 p2 p3] obtain ta where v: "validate sample_XXH32 sample_env ?s
       = Inr (?s\<lparr>cached_image := (staged sample_env ?s)(9 := 0x04),
                calculated_hash := xxhash sample_env, target_addr := ta\<rparr>)"
    by blast
  show ?thesis
    unfolding fobooster_main_def v sample_staged_patched [OF assms]
    by (simp add: confirm_identity_eq program_image_def sample_loop_entry_def)
       (simp add: sample_env_def sample_state_def)
qed

lemma page_count_0_64: "page_count 0 (64 :: u32) = 1"
  by (simp add: page_count_0_eq)

lemma sample_loop_entry_fields:
  "bytes_left (sample_loop_entry fl) = 64" "target_addr (sample_loop_entry fl) = 0"
  "current_ptr (sample_loop_entry fl) = 0" "flash (sample_loop_entry fl) = fl"
  "cached_image (sample_loop_entry fl) = (\<lambda>i. if i < 64 then multiboot_reference ! i else 0)"
  "cached_image_length (sample_loop_entry fl) = 64"
  "trace (sample_loop_entry fl) = [Ev_cfg4 0, Ev_spi_id]"
  by (simp_all add: sample_loop_entry_def)

lemma program_image_sample_loop_entry:
  "program_image (sample_loop_entry fl) = program_loop (sample_loop_entry fl)"
  by (simp add: program_image_def sample_loop_entry_def sample_state_def)

lemma ram_read_descriptor:
  assumes "cached_image s = (\<lambda>i. if i < 64 then multiboot_reference ! i else 0)"
  shows "ram_read s 0 64 = multiboot_reference"
  unfolding ram_read_def assms
  by (simp add: list_eq_iff_nth_eq length_multiboot_reference del: upt_rec_numeral)

text \<open>
  A pass over the staged 64-byte sample whose block 0 is not what the staging memory
  holds: one erase, one page program, and the loop is done.
\<close>

lemma sample_pass:
  assumes "cached_image s = (\<lambda>i. if i < 64 then multiboot_reference ! i else 0)"
    and "cached_image_length s = 64" and "i < 4096" and "flash s i \<noteq> cached_image s i"
  shows "program_image s
           = loop_body (s\<lparr>bytes_left := 64, target_addr := 0, current_ptr := 0, wheel_c := 80\<rparr>)"
    and "flash_commands (events_since s (program_image s))
           = [Ev_erase 0, Ev_write 0 multiboot_reference]"
proof -
  let ?v = "s\<lparr>bytes_left := 64, target_addr := 0, current_ptr := 0, wheel_c := 80\<rparr>"
  from assms(3,4) have ch: "\<not> block_unchanged ?v"
    by (intro block_changed_at [of i]) simp_all
  have "program_loop ?v = loop_body ?v"
    using ch by (intro single_round) simp_all
  with assms(2) show p: "program_image s = loop_body ?v"
    by (simp add: program_image_def)
  have "trace (loop_body ?v) = trace s @ body_events ?v"
    by (simp add: loop_body_trace)
  then have "events_since s (program_image s) = body_events ?v"
    unfolding p by (rule events_since_append)
  moreover have "ram_read ?v 0 64 = multiboot_reference"
    by (rule ram_read_descriptor) (simp add: assms(1))
  ultimately show "flash_commands (events_since s (program_image s))
           = [Ev_erase 0, Ev_write 0 multiboot_reference]"
    using ch by (simp add: flash_commands_body_events page_count_0_64)
qed

lemma pages_cached_image_length [simp]:
  "cached_image_length ((page_body ^^ n) s) = cached_image_length s"
  by (induction n) (simp_all add: page_body_eq)

lemma loop_body_cached_image_length [simp]:
  "cached_image_length (loop_body s) = cached_image_length s"
  by (simp add: loop_body_eq)

text \<open>
  The flash on which the loop finds block 0 unchanged although the image is 64 bytes
  long: block 0 holds the image followed by zeros, as the staging memory does.
\<close>

definition short_flash :: "nat \<Rightarrow> u8" where
  "short_flash a =
     (if a < 64 then multiboot_reference ! a else if a < 4096 then 0 else sample_flash a)"

text \<open>
  The flash on which the 64-byte sample image is installed already: block 0 holds the
  image and is erased behind it, as a pass over an erased flash leaves it.
\<close>

definition installed_flash :: "nat \<Rightarrow> u8" where
  "installed_flash a = (if a < 64 then multiboot_reference ! a else sample_flash a)"

section \<open>The content of the flash after a pass\<close>

lemma program_page_inside:
  assumes "256 dvd addr" "addr \<le> a" "a < addr + length bs" "length bs \<le> 256"
  shows "program_page m addr bs a = m a AND bs ! (a - addr)"
proof -
  from assms(1) obtain q where q: "addr = 256 * q" ..
  from assms(2) obtain j where j: "a = addr + j"
    by (auto simp: le_iff_add)
  with assms(3,4) have j256: "j < 256" and jl: "j < length bs"
    by simp_all
  have d: "a div 256 = addr div 256"
    using j256 by (simp add: j q)
  have i: "(a + 256 - addr mod 256) mod 256 = j"
    using j256 by (simp add: j q)
  show ?thesis
    using jl by (simp add: program_page_def SPI_PROGRAM_PAGE_SIZE_def d i) (simp add: j)
qed

text \<open>
  Pages programmed into erased flash hold the staged bytes: after \<open>n\<close> whole pages, each
  byte of them is the conjunction of what the flash held and the staged byte.
\<close>

lemma pages_flash_content:
  assumes "256 dvd unat (target_addr s)" "unat (target_addr s) < 131072" "n \<le> 16"
    and "256 * n \<le> unat (bytes_left s)" "j < 256 * n"
  shows "flash ((page_body ^^ n) s) (unat (target_addr s) + j)
           = flash s (unat (target_addr s) + j) AND cached_image s (current_ptr s + j)"
  using assms(3,4,5)
proof (induction n)
  case 0
  then show ?case by simp
next
  case (Suc n)
  let ?t = "unat (target_addr s)"
  let ?x = "(page_body ^^ n) s"
  from Suc.prems(1) have n: "n \<le> 16"
    by simp
  have tx: "unat (target_addr s + 256 * of_nat n) = ?t + 256 * n"
    using assms(2) n by (simp add: unat_page_address)
  have dx: "256 dvd ?t + 256 * n"
    using assms(1) by simp
  from Suc.prems(2) have bx: "unat (page_bytes ?x) = 256"
    by (simp add: unat_page_bytes pages_bytes_left)
  have fx: "flash (page_body ?x)
      = program_page (flash ?x) (?t + 256 * n) (ram_read ?x (current_ptr s + 256 * n) 256)"
    by (simp add: page_body_flash tx bx)
  show ?case
  proof (cases "j < 256 * n")
    case True
    then have "(?t + j) div 256 \<noteq> (?t + 256 * n) div 256"
      using div_256_outside [OF dx, of "?t + j"] by simp
    then have "flash ((page_body ^^ Suc n) s) (?t + j) = flash ?x (?t + j)"
      by (simp add: fx program_page_other)
    with Suc.IH [OF n _ True] Suc.prems(2) show ?thesis
      by simp
  next
    case False
    then have ge: "256 * n \<le> j"
      by simp
    with Suc.prems(3) have in_page: "?t + 256 * n \<le> ?t + j"
      "?t + j < ?t + 256 * n + length (ram_read ?x (current_ptr s + 256 * n) 256)"
      by simp_all
    from ge have old: "flash ?x (?t + j) = flash s (?t + j)"
      by (intro pages_flash_frame assms(1,2) n) simp
    from ge Suc.prems(3)
    have byte: "ram_read ?x (current_ptr s + 256 * n) 256 ! (?t + j - (?t + 256 * n))
        = cached_image s (current_ptr s + j)"
      by (simp add: ram_read_def)
    have "flash ((page_body ^^ Suc n) s) (?t + j)
        = flash ?x (?t + j)
          AND ram_read ?x (current_ptr s + 256 * n) 256 ! (?t + j - (?t + 256 * n))"
      using program_page_inside [OF dx in_page, of "flash ?x"] by (simp add: fx)
    then show ?thesis
      by (simp only: old byte)
  qed
qed

lemma erased_byte_and: "(0xFF :: u8) AND x = x"
proof -
  have "(0xFF :: u8) = - 1"
    by simp
  then show ?thesis
    by (simp only: and.left_neutral)
qed

text \<open>A block that is erased and programmed in full then holds the staged block.\<close>

lemma loop_body_block_content:
  assumes "4096 dvd unat (target_addr s)" "target_addr s < 131072"
    and "4096 \<le> unat (bytes_left s)" "i < 4096"
  shows "flash (loop_body s) (unat (target_addr s) + i) = cached_image s (current_ptr s + i)"
proof (cases "block_unchanged s")
  case True
  with assms(4) show ?thesis
    by (simp add: loop_body_eq block_unchanged_iff)
next
  case False
  let ?t = "unat (target_addr s)"
  let ?e = "s\<lparr>flash := erase_block (flash s) ?t, spi_busy := spi_op_polls s,
              trace := trace s @ [Ev_cfg4 0x80, Ev_cfg4 0, Ev_erase (target_addr s)]\<rparr>"
  from assms(2) have lt: "?t < 131072"
    by (simp add: word_less_nat_alt)
  from assms(3) have "16 \<le> (unat (bytes_left s) + 255) div 256"
    by (simp add: le_div_geq)
  then have n: "page_count 0 (bytes_left s) = 16"
    by (simp add: page_count_0_eq)
  from assms(1) have d: "256 dvd ?t"
    by (rule dvd_trans [rotated]) simp
  from assms(1) obtain q where q: "?t = 4096 * q" ..
  from assms(4) have "(?t + i) div 4096 = ?t div 4096"
    by (simp add: q)
  then have er: "erase_block (flash s) ?t (?t + i) = 0xFF"
    by (simp add: erase_block_same)
  have "flash ((page_body ^^ 16) ?e) (unat (target_addr ?e) + i)
      = flash ?e (unat (target_addr ?e) + i) AND cached_image ?e (current_ptr ?e + i)"
    by (rule pages_flash_content) (use d lt assms(3,4) in simp_all)
  then have "flash ((page_body ^^ 16) ?e) (?t + i) = cached_image s (current_ptr s + i)"
    by (simp add: er erased_byte_and)
  with False show ?thesis
    by (simp add: loop_body_eq n)
qed

lemma whole_blocks_step:
  assumes "4096 dvd unat (target_addr s)" "4096 dvd unat (bytes_left s)"
    and "unat (target_addr s) + unat (bytes_left s) \<le> 131072"
    and "bytes_left s \<noteq> 0"
  shows "target_addr s < 131072" and "4096 \<le> unat (bytes_left s)"
    and "unat (target_addr (loop_body s)) = unat (target_addr s) + 4096"
    and "current_ptr (loop_body s) = current_ptr s + 4096"
    and "unat (bytes_left (loop_body s)) = unat (bytes_left s) - 4096"
    and "4096 dvd unat (target_addr (loop_body s))"
    and "4096 dvd unat (bytes_left (loop_body s))"
    and "unat (target_addr (loop_body s)) + unat (bytes_left (loop_body s)) \<le> 131072"
proof -
  from assms(4) have pos: "0 < unat (bytes_left s)"
    by (simp add: unat_gt_0)
  from assms(2) obtain m where m: "unat (bytes_left s) = 4096 * m" ..
  with pos have "0 < m"
    by simp
  with m show full: "4096 \<le> unat (bytes_left s)"
    by simp
  with assms(3) have lt: "unat (target_addr s) < 131072"
    by simp
  then show "target_addr s < 131072"
    by (simp add: word_less_nat_alt)
  from loop_body_full [OF full] lt
  show t': "unat (target_addr (loop_body s)) = unat (target_addr s) + 4096"
    and "current_ptr (loop_body s) = current_ptr s + 4096"
    and b': "unat (bytes_left (loop_body s)) = unat (bytes_left s) - 4096"
    by (simp_all add: unat_add_4096)
  from t' assms(1) show "4096 dvd unat (target_addr (loop_body s))"
    by simp
  from b' full assms(2) show "4096 dvd unat (bytes_left (loop_body s))"
    by (simp add: dvd_diff_nat)
  from t' b' full assms(3)
  show "unat (target_addr (loop_body s)) + unat (bytes_left (loop_body s)) \<le> 131072"
    by simp
qed

lemma program_loop_cached [simp]:
  "cached_image (program_loop s) = cached_image s"
  "cached_image_length (program_loop s) = cached_image_length s"
proof (induction s rule: program_loop.induct)
  case (1 s)
  {
    case 1
    show ?case
    proof (cases "bytes_left s \<noteq> 0 \<and> target_addr s < 131072")
      case True
      with "1.IH"(1) show ?thesis
        by (simp add: program_loop_continue)
    next
      case False
      then show ?thesis
        by (simp add: program_loop_stop)
    qed
  next
    case 2
    show ?case
    proof (cases "bytes_left s \<noteq> 0 \<and> target_addr s < 131072")
      case True
      with "1.IH"(2) show ?thesis
        by (simp add: program_loop_continue)
    next
      case False
      then show ?thesis
        by (simp add: program_loop_stop)
    qed
  }
qed

text \<open>
  A pass over whole blocks leaves the flash holding the staged bytes, and the flash
  below its first block as it was.
\<close>

lemma whole_blocks_programmed:
  assumes "4096 dvd unat (target_addr s)" "4096 dvd unat (bytes_left s)"
    and "unat (target_addr s) + unat (bytes_left s) \<le> 131072"
  shows "(\<forall>j < unat (bytes_left s).
            flash (program_loop s) (unat (target_addr s) + j) = cached_image s (current_ptr s + j))
    \<and> (\<forall>b < unat (target_addr s). flash (program_loop s) b = flash s b)"
  using assms
proof (induction s rule: program_loop.induct)
  case (1 s)
  let ?t = "unat (target_addr s)"
  let ?s' = "loop_body s"
  let ?f = "program_loop ?s'"
  show ?case
  proof (cases "bytes_left s = 0")
    case True
    then show ?thesis
      by (simp add: program_loop_stop)
  next
    case False
    note st = whole_blocks_step [OF "1.prems" False]
    have e: "program_loop s = ?f"
      using False st(1) by (rule program_loop_continue)
    from "1.IH" [OF _ st(6,7,8)] False st(1)
    have ih1: "\<forall>j < unat (bytes_left ?s').
        flash ?f (unat (target_addr ?s') + j) = cached_image ?s' (current_ptr ?s' + j)"
      and ih2: "\<forall>b < unat (target_addr ?s'). flash ?f b = flash ?s' b"
      by simp_all
    have below: "flash ?f b = flash s b" if "b < ?t" for b
    proof -
      from that st(3) ih2 have "flash ?f b = flash ?s' b"
        by simp
      also from that have "\<dots> = flash s b"
        by (intro loop_body_flash_frame "1.prems"(1) st(1)) simp
      finally show ?thesis .
    qed
    have inside: "flash ?f (?t + j) = cached_image s (current_ptr s + j)"
      if j: "j < unat (bytes_left s)" for j
    proof (cases "j < 4096")
      case True
      with st(3) ih2 have "flash ?f (?t + j) = flash ?s' (?t + j)"
        by simp
      also from True have "\<dots> = cached_image s (current_ptr s + j)"
        by (intro loop_body_block_content "1.prems"(1) st(1,2))
      finally show ?thesis .
    next
      case False
      with j st(5) have "j - 4096 < unat (bytes_left ?s')"
        by simp
      with ih1 have "flash ?f (unat (target_addr ?s') + (j - 4096))
          = cached_image ?s' (current_ptr ?s' + (j - 4096))"
        by blast
      with False show ?thesis
        by (simp add: st(3,4))
    qed
    from below inside show ?thesis
      unfolding e by blast
  qed
qed

lemma flash_commands_append [simp]:
  "flash_commands (xs @ ys) = flash_commands xs @ flash_commands ys"
  by (simp add: flash_commands_def)

text \<open>A pass over whole blocks that the flash already holds issues no command.\<close>

lemma whole_blocks_skipped:
  assumes "4096 dvd unat (target_addr s)" "4096 dvd unat (bytes_left s)"
    and "unat (target_addr s) + unat (bytes_left s) \<le> 131072"
    and "\<forall>j < unat (bytes_left s).
           flash s (unat (target_addr s) + j) = cached_image s (current_ptr s + j)"
  shows "flash_commands (events_since s (program_loop s)) = []
    \<and> flash (program_loop s) = flash s"
  using assms
proof (induction s rule: program_loop.induct)
  case (1 s)
  let ?t = "unat (target_addr s)"
  let ?s' = "loop_body s"
  show ?case
  proof (cases "bytes_left s = 0")
    case True
    then show ?thesis
      by (simp add: program_loop_stop events_since_def flash_commands_def)
  next
    case False
    note st = whole_blocks_step [OF "1.prems"(1,2,3) False]
    from "1.prems"(4) st(2) have u: "block_unchanged s"
      by (simp add: block_unchanged_iff)
    then have fl: "flash ?s' = flash s" and ci: "cached_image ?s' = cached_image s"
      by (simp_all add: loop_body_eq)
    have "flash ?s' (unat (target_addr ?s') + j) = cached_image ?s' (current_ptr ?s' + j)"
      if "j < unat (bytes_left ?s')" for j
    proof -
      from that st(2,5) have "4096 + j < unat (bytes_left s)"
        by simp
      with "1.prems"(4)
      have "flash s (?t + (4096 + j)) = cached_image s (current_ptr s + (4096 + j))"
        by blast
      then show ?thesis
        by (simp add: fl ci st(3,4) add.assoc)
    qed
    then have "\<forall>j < unat (bytes_left ?s').
        flash ?s' (unat (target_addr ?s') + j) = cached_image ?s' (current_ptr ?s' + j)"
      by blast
    from "1.IH" [OF _ st(6,7,8) this] False st(1)
    have r: "flash_commands (events_since ?s' (program_loop ?s')) = []"
      "flash (program_loop ?s') = flash ?s'"
      by simp_all
    have ev: "events_since s (program_loop s)
                = body_events s @ events_since ?s' (program_loop ?s')"
      using False st(1) by (rule loop_events_continue)
    have e: "program_loop s = program_loop ?s'"
      using False st(1) by (rule program_loop_continue)
    have "flash_commands (events_since s (program_loop s)) = []"
      unfolding ev using u r(1) by (simp add: flash_commands_body_events)
    moreover have "flash (program_loop s) = flash s"
      unfolding e using r(2) fl by simp
    ultimately show ?thesis
      by blast
  qed
qed

text \<open>What the loop may issue: erases and page programs that stay below \<^verbatim>\<open>131072\<close>.\<close>

fun below_bound :: "event \<Rightarrow> bool" where
  "below_bound (Ev_erase a) = (unat a + 4096 \<le> 131072)"
| "below_bound (Ev_write a bs) = (unat a + length bs \<le> 131072)"
| "below_bound e = True"

lemma body_events_below_bound:
  assumes "target_addr s < 131072" "4096 dvd unat (target_addr s)"
  shows "\<forall>e \<in> set (body_events s). below_bound e"
proof -
  let ?t = "unat (target_addr s)"
  from assms(1) have lt: "?t < 131072"
    by (simp add: word_less_nat_alt)
  from assms(2) obtain q where q: "?t = 4096 * q" ..
  with lt have "q < 32"
    by simp
  then have "Suc q \<le> 32"
    by simp
  then have "4096 * Suc q \<le> 4096 * 32"
    by (rule mult_le_mono2)
  with q have room: "?t + 4096 \<le> 131072"
    by simp
  have "below_bound e" if "e \<in> set (page_events s k)" "k < page_count 0 (bytes_left s)" for e k
  proof -
    from that(2) have k: "k < 16"
      by (simp add: page_count_0_eq)
    with lt have "unat (target_addr s + 256 * of_nat k) = ?t + 256 * k"
      by (simp add: unat_page_address)
    with that(1) k room show ?thesis
      by (auto simp: page_events_def)
  qed
  with room show ?thesis
    by (auto simp: body_events_def)
qed

lemma loop_events_below_bound:
  "4096 dvd unat (target_addr s) \<Longrightarrow>
     \<forall>e \<in> set (events_since s (program_loop s)). below_bound e"
proof (induction s rule: program_loop.induct)
  case (1 s)
  show ?case
  proof (cases "bytes_left s \<noteq> 0 \<and> target_addr s < 131072")
    case False
    then show ?thesis
      by (simp add: loop_events_stop)
  next
    case True
    let ?s' = "loop_body s"
    have rest: "\<forall>e \<in> set (events_since ?s' (program_loop ?s')). below_bound e"
    proof (cases "bytes_left ?s' = 0")
      case True
      then show ?thesis
        by (simp add: loop_events_stop)
    next
      case False
      with True have "unat (target_addr ?s') = unat (target_addr s) + 4096"
        by (simp add: loop_body_continues)
      with "1.prems" have "4096 dvd unat (target_addr ?s')"
        by simp
      with "1.IH" True show ?thesis
        by simp
    qed
    from True "1.prems" have "\<forall>e \<in> set (body_events s). below_bound e"
      using body_events_below_bound [of s] by blast
    with rest True show ?thesis
      by (auto simp: loop_events_continue)
  qed
qed

lemma program_loop_final:
  "bytes_left (program_loop s) = 0 \<or> \<not> target_addr (program_loop s) < 131072"
proof (induction s rule: program_loop.induct)
  case (1 s)
  show ?case
  proof (cases "bytes_left s \<noteq> 0 \<and> target_addr s < 131072")
    case True
    with 1 show ?thesis
      by (simp add: program_loop_continue)
  next
    case False
    then show ?thesis
      by (auto simp: program_loop_stop)
  qed
qed

lemma program_loop_rounds:
  "\<exists>n. n \<le> (135167 - unat (target_addr s)) div 4096 \<and> program_loop s = (loop_body ^^ n) s"
proof (induction s rule: program_loop.induct)
  case (1 s)
  let ?t = "unat (target_addr s)"
  let ?s' = "loop_body s"
  show ?case
  proof (cases "bytes_left s \<noteq> 0 \<and> target_addr s < 131072")
    case False
    then have "program_loop s = (loop_body ^^ 0) s"
      by (auto simp: program_loop_stop)
    then show ?thesis
      by blast
  next
    case True
    then have lt: "?t < 131072"
      by (simp add: word_less_nat_alt)
    then have one: "Suc ((135167 - (?t + 4096)) div 4096) = (135167 - ?t) div 4096"
      by (simp add: le_div_geq)
    from True have e: "program_loop s = program_loop ?s'"
      by (simp add: program_loop_continue)
    show ?thesis
    proof (cases "bytes_left ?s' = 0")
      case True
      then have "program_loop s = (loop_body ^^ Suc 0) s"
        by (simp add: e program_loop_stop)
      moreover from one have "Suc 0 \<le> (135167 - ?t) div 4096"
        by simp
      ultimately show ?thesis
        by blast
    next
      case False
      with True have t': "unat (target_addr ?s') = ?t + 4096"
        by (simp add: loop_body_continues)
      from "1.IH" True obtain n where n: "n \<le> (135167 - unat (target_addr ?s')) div 4096"
        and p: "program_loop ?s' = (loop_body ^^ n) ?s'"
        by blast
      from n t' one have "Suc n \<le> (135167 - ?t) div 4096"
        by simp
      moreover from p have "program_loop s = (loop_body ^^ Suc n) s"
        by (simp only: e funpow_Suc_right o_apply)
      ultimately show ?thesis
        by blast
    qed
  qed
qed

lemma events_since_cong: "trace s = trace r \<Longrightarrow> events_since s x = events_since r x"
  by (simp add: events_since_def)

section \<open>Two passes, and the end of the loop\<close>

text \<open>
  Claim C3: the code does not do this. The sample image is 64 bytes long and the flash is
  erased. The first pass erases block 0 and programs the 64 bytes, after which the flash
  holds the image; the rest of block 0 holds \<^verbatim>\<open>0xFF\<close>, while the staging memory behind
  the image holds zeros. The skip check of line 213 compares the whole block, so a second
  pass over the same staged image erases block 0 and programs the page again.
\<close>

theorem second_pass_erases_again:
  "fobooster_main sample_XXH32 sample_env sample_state
     = Inr (finish_flashing (msleep sample_env 1000
              (rgb_mode_writing (program_image (sample_loop_entry sample_flash)))))
   \<and> flash_commands (events_since (sample_loop_entry sample_flash)
          (program_image (sample_loop_entry sample_flash)))
       = [Ev_erase 0, Ev_write 0 multiboot_reference]
   \<and> map (flash (program_image (sample_loop_entry sample_flash))) [0..<64]
       = multiboot_reference
   \<and> cached_image (program_image (sample_loop_entry sample_flash))
       = cached_image (sample_loop_entry sample_flash)
   \<and> cached_image_length (program_image (sample_loop_entry sample_flash)) = 64
   \<and> flash_commands (events_since (program_image (sample_loop_entry sample_flash))
          (program_image (program_image (sample_loop_entry sample_flash))))
       = [Ev_erase 0, Ev_write 0 multiboot_reference]"
proof -
  let ?v = "sample_loop_entry sample_flash"
  let ?w = "?v\<lparr>bytes_left := 64, target_addr := 0, current_ptr := 0, wheel_c := 80\<rparr>"
  have src: "\<forall>i<64. sample_flash (0x40000 + i) = multiboot_reference ! i"
    by (simp add: sample_flash_def)
  have e: "sample_state\<lparr>flash := sample_flash\<rparr> = sample_state"
    by (simp add: sample_state_def)
  have run: "fobooster_main sample_XXH32 sample_env sample_state
     = Inr (finish_flashing (msleep sample_env 1000 (rgb_mode_writing (program_image ?v))))"
    unfolding program_image_sample_loop_entry using sample_run [OF src, unfolded e] .
  have ci: "cached_image ?v = (\<lambda>i. if i < 64 then multiboot_reference ! i else 0)"
    and cl: "cached_image_length ?v = 64"
    by (simp_all add: sample_loop_entry_fields)
  have d0: "flash ?v 0 \<noteq> cached_image ?v 0"
    by (simp add: sample_loop_entry_fields sample_flash_def multiboot_reference_def)
  note first = sample_pass [OF ci cl _ d0]
  have p: "program_image ?v = loop_body ?w"
    by (rule first) simp
  have f1: "flash_commands (events_since ?v (program_image ?v))
       = [Ev_erase 0, Ev_write 0 multiboot_reference]"
    by (rule first) simp
  have ci1: "cached_image (program_image ?v) = cached_image ?v"
    by (simp add: p)
  have cl1: "cached_image_length (program_image ?v) = 64"
    by (simp add: p cl)
  have ch0: "\<not> block_unchanged ?w"
    using d0 by (intro block_changed_at [of 0]) simp_all
  have fl: "flash (program_image ?v)
      = program_page (erase_block sample_flash 0) 0 multiboot_reference"
    unfolding p using ch0
    by (simp add: loop_body_eq page_count_0_64 page_body_flash unat_page_bytes
          sample_loop_entry_fields ram_read_descriptor)
  have "flash (program_image ?v) j = multiboot_reference ! j" if "j < 64" for j
  proof -
    from that have "program_page (erase_block sample_flash 0) 0 multiboot_reference j
        = erase_block sample_flash 0 j AND multiboot_reference ! (j - 0)"
      by (intro program_page_inside) (simp_all add: length_multiboot_reference)
    moreover from that have "erase_block sample_flash 0 j = 0xFF"
      by (intro erase_block_same) simp
    ultimately show ?thesis
      by (simp add: fl erased_byte_and)
  qed
  then have img: "map (flash (program_image ?v)) [0..<64] = multiboot_reference"
    by (simp add: list_eq_iff_nth_eq length_multiboot_reference del: upt_rec_numeral)
  have "flash (program_image ?v) 64 = 0xFF"
    by (simp add: fl program_page_def erase_block_def SPI_PROGRAM_PAGE_SIZE_def
          SPI_ERASE_SECTOR_SIZE_def length_multiboot_reference)
  then have d1: "flash (program_image ?v) 64 \<noteq> cached_image (program_image ?v) 64"
    by (simp add: ci1 ci)
  have f2: "flash_commands (events_since (program_image ?v) (program_image (program_image ?v)))
       = [Ev_erase 0, Ev_write 0 multiboot_reference]"
    by (rule sample_pass [OF _ cl1 _ d1]) (simp_all add: ci1 ci)
  from run f1 img ci1 cl1 f2 show ?thesis
    by blast
qed

text \<open>
  Claim C5: the code does not do this for the last block of an image that does not fill
  it. The sample image is 64 bytes long and block 0 of the flash holds these 64 bytes
  already, erased behind them: the block is, byte for byte, the slice of the staged image
  that belongs to it. The run reaches the programming loop with 64 bytes left at address
  0, the comparison of line 213 is over 4096 bytes, of which those behind the image are
  staging memory that is no part of the image, and the only round of the loop erases
  block 0 and programs the 64 bytes again. For blocks the image fills, and for the order
  of the erase and the page programs and the single erase of a block, see
  \<open>round_commands_and_erased_blocks\<close>.
\<close>

theorem installed_image_is_erased_again:
  "fobooster_main sample_XXH32 sample_env (sample_state\<lparr>flash := installed_flash\<rparr>)
     = Inr (finish_flashing (msleep sample_env 1000
              (rgb_mode_writing (program_image (sample_loop_entry installed_flash)))))
   \<and> cached_image_length (sample_loop_entry installed_flash) = 64
   \<and> bytes_left (sample_loop_entry installed_flash) = 64
   \<and> target_addr (sample_loop_entry installed_flash) = 0
   \<and> current_ptr (sample_loop_entry installed_flash) = 0
   \<and> map (cached_image (sample_loop_entry installed_flash)) [0..<64] = multiboot_reference
   \<and> map (flash (sample_loop_entry installed_flash)) [0..<64] = multiboot_reference
   \<and> block_unchanged (sample_loop_entry installed_flash) = False
   \<and> program_image (sample_loop_entry installed_flash)
       = loop_body (sample_loop_entry installed_flash)
   \<and> flash_commands (events_since (sample_loop_entry installed_flash)
          (loop_body (sample_loop_entry installed_flash)))
       = [Ev_erase 0, Ev_write 0 multiboot_reference]"
proof -
  let ?v = "sample_loop_entry installed_flash"
  have src: "\<forall>i<64. installed_flash (0x40000 + i) = multiboot_reference ! i"
    by (simp add: installed_flash_def sample_flash_def)
  have run: "fobooster_main sample_XXH32 sample_env (sample_state\<lparr>flash := installed_flash\<rparr>)
     = Inr (finish_flashing (msleep sample_env 1000 (rgb_mode_writing (program_image ?v))))"
    unfolding program_image_sample_loop_entry using sample_run [OF src] .
  have ci: "cached_image ?v = (\<lambda>i. if i < 64 then multiboot_reference ! i else 0)"
    and cl: "cached_image_length ?v = 64"
    by (simp_all add: sample_loop_entry_fields)
  have d: "flash ?v 64 \<noteq> cached_image ?v 64"
    by (simp add: sample_loop_entry_fields installed_flash_def sample_flash_def)
  have w: "?v\<lparr>bytes_left := 64, target_addr := 0, current_ptr := 0, wheel_c := 80\<rparr> = ?v"
    by (simp add: sample_loop_entry_def sample_state_def)
  have p: "program_image ?v = loop_body ?v"
    using sample_pass(1) [OF ci cl _ d] by (simp add: w)
  have f: "flash_commands (events_since ?v (loop_body ?v))
       = [Ev_erase 0, Ev_write 0 multiboot_reference]"
    using sample_pass(2) [OF ci cl _ d] by (simp add: p)
  have ch: "\<not> block_unchanged ?v"
    using d by (intro block_changed_at [of 64]) (simp_all add: sample_loop_entry_fields)
  have m1: "map (cached_image ?v) [0..<64] = multiboot_reference"
    by (simp add: ci list_eq_iff_nth_eq length_multiboot_reference del: upt_rec_numeral)
  have m2: "map (flash ?v) [0..<64] = multiboot_reference"
    by (simp add: sample_loop_entry_fields installed_flash_def list_eq_iff_nth_eq
          length_multiboot_reference del: upt_rec_numeral)
  show ?thesis
    using run cl m1 m2 ch p f by (simp add: sample_loop_entry_fields del: upt_rec_numeral)
qed

text \<open>
  Claim C6: the code does not do this. The sample image is 64 bytes long, and block 0 of
  the flash already holds it, followed by zeros. The loop finds block 0 unchanged, line
  216 takes 4096 from the 64 bytes left, and the loop does not end with the image: it
  reads back all 32 blocks below 131072, erases the block at 4096 and programs it from
  the memory behind the image, and ends with \<^verbatim>\<open>target_addr\<close> at 131072 and \<^verbatim>\<open>bytes_left\<close>
  not zero.
\<close>

theorem loop_runs_past_short_image:
  "unat (image_length sample_env) = 64
   \<and> (\<exists>s'. fobooster_main sample_XXH32 sample_env (sample_state\<lparr>flash := short_flash\<rparr>)
               = Inr s'
          \<and> target_addr s' = 131072
          \<and> bytes_left s' \<noteq> 0
          \<and> block_reads (trace s') = 32
          \<and> Ev_erase 4096 \<in> set (trace s')
          \<and> Ev_write 4096 (replicate 256 0) \<in> set (trace s'))"
proof -
  let ?v = "sample_loop_entry short_flash"
  let ?f = "program_loop ?v"
  let ?s' = "finish_flashing (msleep sample_env 1000 (rgb_mode_writing ?f))"
  have src: "\<forall>i<64. short_flash (0x40000 + i) = multiboot_reference ! i"
    by (simp add: short_flash_def sample_flash_def)
  note run = sample_run [OF src]
  have h: "bytes_left ?v \<noteq> 0" "target_addr ?v < 131072" "4096 dvd unat (target_addr ?v)"
    "bytes_left ?v < 4096"
    by (simp_all add: sample_loop_entry_fields)
  have u: "block_unchanged ?v"
    by (simp add: block_unchanged_iff sample_loop_entry_fields short_flash_def)
  note w = skip_wraps_and_overruns [OF h u]
  have v: "unat (target_addr ?v) = 0" "current_ptr ?v = 0"
    by (simp_all add: sample_loop_entry_fields)
  have d: "(0 :: nat) < 4096 \<and> (4096 :: nat) < 131072 \<and> (4096 :: nat) dvd 4096
      \<and> (0 :: nat) < 4096
      \<and> flash ?v (4096 + 0) \<noteq> cached_image ?v (0 + (4096 - 0) + 0)"
    by (simp add: sample_loop_entry_fields short_flash_def sample_flash_def)
  from w have "\<forall>a i. unat (target_addr ?v) < a \<and> a < 131072 \<and> 4096 dvd a \<and> i < 4096
           \<and> flash ?v (a + i) \<noteq> cached_image ?v (current_ptr ?v + (a - unat (target_addr ?v)) + i)
         \<longrightarrow> Ev_erase (of_nat a) \<in> set (events_since ?v ?f)
           \<and> Ev_write (of_nat a) (ram_read ?v (current_ptr ?v + (a - unat (target_addr ?v))) 256)
               \<in> set (events_since ?v ?f)"
    by blast
  from this [unfolded v, rule_format, of 4096 0] d
  have er: "Ev_erase (of_nat 4096) \<in> set (events_since ?v ?f)
           \<and> Ev_write (of_nat 4096) (ram_read ?v (0 + (4096 - 0)) 256)
               \<in> set (events_since ?v ?f)"
    by blast
  have rr: "ram_read ?v (0 + (4096 - 0)) 256 = replicate 256 0"
    unfolding ram_read_def sample_loop_entry_fields
    by (simp add: list_eq_iff_nth_eq del: upt_rec_numeral)
  from er have e: "Ev_erase 4096 \<in> set (events_since ?v ?f)"
    "Ev_write 4096 (replicate 256 0) \<in> set (events_since ?v ?f)"
    unfolding rr by simp_all
  from w have t: "target_addr ?f = 131072" and b: "bytes_left ?f \<noteq> 0"
    and r: "block_reads (events_since ?v ?f) = (131072 - unat (target_addr ?v)) div 4096"
    by blast+
  have tr: "trace ?s' = [Ev_cfg4 0, Ev_spi_id] @ events_since ?v ?f
      @ [Ev_rgb_writing, Ev_write 9 [0], Ev_erase 0x5a000, Ev_reboot_ctrl 0xae]"
    using program_loop_trace_eq [of ?v]
    by (simp add: finish_flashing_eq rgb_mode_writing_def sample_loop_entry_fields)
  have "target_addr ?s' = 131072" "bytes_left ?s' \<noteq> 0"
    using t b by (simp_all add: finish_flashing_eq rgb_mode_writing_def)
  moreover have "block_reads (trace ?s') = 32"
    unfolding tr block_reads_append r v by (simp add: block_reads_def)
  moreover have "Ev_erase 4096 \<in> set (trace ?s')"
    "Ev_write 4096 (replicate 256 0) \<in> set (trace ?s')"
    unfolding tr using e by simp_all
  moreover have "unat (image_length sample_env) = 64"
    by (simp add: sample_env_def)
  ultimately show ?thesis
    using run by blast
qed

section \<open>What does hold of the loop's end and of a second pass\<close>

text \<open>
  The programming loop ends, after at most 32 rounds when it starts at address 0, with
  \<^verbatim>\<open>bytes_left\<close> zero or \<^verbatim>\<open>target_addr\<close> at or beyond 131072. Started at a block boundary it
  erases and programs below 131072 only.
\<close>

theorem loop_ends_below_bound:
  "(\<exists>n. n \<le> (135167 - unat (target_addr s)) div 4096 \<and> program_loop s = (loop_body ^^ n) s)
   \<and> (bytes_left (program_loop s) = 0 \<or> 131072 \<le> unat (target_addr (program_loop s)))
   \<and> (4096 dvd unat (target_addr s) \<longrightarrow>
        (\<forall>e \<in> set (events_since s (program_loop s)). below_bound e))"
  using program_loop_rounds [of s] program_loop_final [of s] loop_events_below_bound [of s]
  by (simp add: word_less_nat_alt not_less)

theorem loop_ends_below_bound_witness:
  "4096 dvd unat (target_addr short_skip_state)
   \<and> (\<exists>n \<le> 32. program_loop short_skip_state = (loop_body ^^ n) short_skip_state)
   \<and> (\<forall>e \<in> set (events_since short_skip_state (program_loop short_skip_state)).
         below_bound e)"
proof -
  have t: "unat (target_addr short_skip_state) = 0"
    by (simp add: short_skip_state_def sample_state_def)
  from loop_ends_below_bound [of short_skip_state]
  show ?thesis
    unfolding t by simp
qed

text \<open>
  For a staged image whose length is a whole number of blocks, the pass of lines 200-238
  leaves the flash holding the staged bytes, and a second pass over the same staged
  image issues no erase and no program command and leaves the flash as it is.
\<close>

theorem whole_block_image_second_pass_idle:
  assumes "4096 dvd unat (cached_image_length s)" "unat (cached_image_length s) \<le> 131072"
  shows "(\<forall>j < unat (cached_image_length s). flash (program_image s) j = cached_image s j)
    \<and> cached_image (program_image s) = cached_image s
    \<and> flash_commands (events_since (program_image s) (program_image (program_image s))) = []
    \<and> flash (program_image (program_image s)) = flash (program_image s)"
proof -
  let ?i = "s\<lparr>bytes_left := cached_image_length s, target_addr := 0, current_ptr := 0,
              wheel_c := 80\<rparr>"
  let ?p = "program_image s"
  let ?k = "?p\<lparr>bytes_left := cached_image_length ?p, target_addr := 0, current_ptr := 0,
              wheel_c := 80\<rparr>"
  have p: "?p = program_loop ?i"
    by (simp add: program_image_def)
  have pp: "program_image ?p = program_loop ?k"
    by (simp add: program_image_def)
  from whole_blocks_programmed [of ?i] assms
  have w: "\<forall>j < unat (cached_image_length s). flash ?p j = cached_image s j"
    by (simp add: p)
  have c: "cached_image ?p = cached_image s" and l: "cached_image_length ?p = cached_image_length s"
    by (simp_all add: p)
  from w c l assms whole_blocks_skipped [of ?k]
  have "flash_commands (events_since ?k (program_loop ?k)) = []"
    and f: "flash (program_loop ?k) = flash ?p"
    by simp_all
  moreover have "events_since ?p (program_loop ?k) = events_since ?k (program_loop ?k)"
    by (rule events_since_cong) simp
  ultimately have "flash_commands (events_since ?p (program_image ?p)) = []"
    by (simp add: pp)
  with w c f show ?thesis
    by (simp add: pp)
qed

theorem whole_block_image_second_pass_idle_witness:
  "4096 dvd unat (cached_image_length (sample_state\<lparr>cached_image_length := 4096\<rparr>))
   \<and> unat (cached_image_length (sample_state\<lparr>cached_image_length := 4096\<rparr>)) \<le> 131072
   \<and> flash_commands
        (events_since (program_image (sample_state\<lparr>cached_image_length := 4096\<rparr>))
           (program_image (program_image (sample_state\<lparr>cached_image_length := 4096\<rparr>)))) = []"
proof -
  have h: "4096 dvd unat (cached_image_length (sample_state\<lparr>cached_image_length := 4096\<rparr>))"
    "unat (cached_image_length (sample_state\<lparr>cached_image_length := 4096\<rparr>)) \<le> 131072"
    by simp_all
  from whole_block_image_second_pass_idle [OF h] h show ?thesis
    by blast
qed

end
